theory Spec2Isabelle
  imports Complex_Main
begin

section \<open>Values kept by the StorageManager\<close>

text \<open>
  The storage module exists in two revisions inside \<^verbatim>\<open>static/js/storage.js\<close>: the
  first one (lines 1--134) talks to \<^verbatim>\<open>localStorage\<close> only, the second one (lines
  135--268) puts the module-level \<^verbatim>\<open>CACHE = new Map()\<close> in front of it.  Both are
  embedded; the functions of the first revision carry the suffix \<open>_v1\<close> where the two
  revisions use the same name.  JavaScript identifiers that start with an underscore
  (\<^verbatim>\<open>_save\<close>, \<^verbatim>\<open>_get\<close>, \<^verbatim>\<open>_clear\<close>) are written \<open>cache_save\<close>, \<open>cache_get\<close>,
  \<open>cache_clear\<close>.

  Times are \<^verbatim>\<open>Date.now()\<close> readings: integers, in milliseconds.
\<close>

type_synonym key = string
type_synonym params = "(string \<times> string) list"

text \<open>The two object shapes handed to \<^verbatim>\<open>_save\<close> / \<^verbatim>\<open>saveToStorage\<close>:
  \<^verbatim>\<open>{ jobId, format }\<close> and \<^verbatim>\<open>{ gifUrl, params, format }\<close>.\<close>

datatype payload =
    JobRec string string
  | ResultRec string "params option" string

text \<open>One element of the history array:
  \<^verbatim>\<open>{ url, format, params, timestamp, date }\<close>.\<close>

record hentry =
  url :: string
  format :: string
  hparams :: "params option"
  timestamp :: int
  date :: string

text \<open>
  What a slot of \<^verbatim>\<open>CACHE\<close> (and, serialised, of \<^verbatim>\<open>localStorage\<close>) holds: either
  \<^verbatim>\<open>{ ...val, timestamp }\<close>, or the naked history array.
\<close>

datatype stored =
    Obj payload int
  | Arr "hentry list"

text \<open>
  A \<^verbatim>\<open>localStorage\<close> item is a string.  \<open>Json v\<close> stands for \<^verbatim>\<open>JSON.stringify(v)\<close>;
  \<open>Garbled\<close> stands for any string on which \<^verbatim>\<open>JSON.parse\<close> (or the property access
  that follows it) throws.
\<close>

datatype raw = Json stored | Garbled

datatype exn = QuotaExceededError | SyntaxError | TypeError

text \<open>
  The module state: the in-memory mirror, the durable store, and whether
  \<^verbatim>\<open>localStorage.setItem\<close> currently succeeds (\<open>False\<close>: quota exhausted or writing
  disabled, \<^verbatim>\<open>setItem\<close> throws).  \<^verbatim>\<open>getItem\<close> and \<^verbatim>\<open>removeItem\<close> do not throw.
\<close>

record storage =
  cache :: "key \<rightharpoonup> stored"
  durable :: "key \<rightharpoonup> raw"
  writable :: bool

text \<open>A call either returns a value or throws; either way it leaves a state behind.\<close>

type_synonym 'a outcome = "(exn + 'a) \<times> storage"

definition STORAGE_TTL :: int where
  "STORAGE_TTL = 24 * 60 * 60 * 1000"

definition TTL :: int where
  "TTL = 86400000"

definition MAX_HISTORY_ITEMS_v1 :: nat where
  "MAX_HISTORY_ITEMS_v1 = 5"

text \<open>\<^verbatim>\<open>const LIM = 3\<close> (\<open>LIM\<close> is taken in HOL).\<close>

definition LIM_hist :: nat where
  "LIM_hist = 3"

definition MAX_HISTORY_ITEMS :: nat where
  "MAX_HISTORY_ITEMS = LIM_hist"

subsection \<open>The browser primitives\<close>

definition localStorage_setItem :: "key \<Rightarrow> raw \<Rightarrow> storage \<Rightarrow> unit outcome" where
  "localStorage_setItem k v s =
     (if writable s then (Inr (), s\<lparr>durable := (durable s)(k \<mapsto> v)\<rparr>)
      else (Inl QuotaExceededError, s))"

definition localStorage_getItem :: "key \<Rightarrow> storage \<Rightarrow> raw option" where
  "localStorage_getItem k s = durable s k"

definition localStorage_removeItem :: "key \<Rightarrow> storage \<Rightarrow> storage" where
  "localStorage_removeItem k s = s\<lparr>durable := (durable s)(k := None)\<rparr>"

definition JSON_parse :: "raw \<Rightarrow> exn + stored" where
  "JSON_parse r = (case r of Json v \<Rightarrow> Inr v | Garbled \<Rightarrow> Inl SyntaxError)"

definition CACHE_set :: "key \<Rightarrow> stored \<Rightarrow> storage \<Rightarrow> storage" where
  "CACHE_set k v s = s\<lparr>cache := (cache s)(k \<mapsto> v)\<rparr>"

definition CACHE_delete :: "key \<Rightarrow> storage \<Rightarrow> storage" where
  "CACHE_delete k s = s\<lparr>cache := (cache s)(k := None)\<rparr>"

text \<open>
  \<^verbatim>\<open>now - data.timestamp > TTL\<close>.  An array has no \<^verbatim>\<open>timestamp\<close> property, the
  difference is \<^verbatim>\<open>NaN\<close> and the comparison is false.
\<close>

fun expired :: "int \<Rightarrow> int \<Rightarrow> stored \<Rightarrow> bool" where
  "expired ttl now (Obj p ts) = (now - ts > ttl)"
| "expired ttl now (Arr h) = False"

section \<open>The mirrored revision: \<^verbatim>\<open>_save\<close>, \<^verbatim>\<open>_get\<close>, \<^verbatim>\<open>_clear\<close>\<close>

text \<open>
  \<^verbatim>\<open>
  static _save(key, val) {
      try {
          const data = { ...val, timestamp: Date.now() };
          CACHE.set(key, data);
          localStorage.setItem(key, JSON.stringify(data));
      } catch (e) { }
  }
  \<close>
\<close>

definition cache_save :: "key \<Rightarrow> payload \<Rightarrow> int \<Rightarrow> storage \<Rightarrow> unit outcome" where
  "cache_save k val now s =
     (let data = Obj val now;
          s1 = CACHE_set k data s
      in case localStorage_setItem k (Json data) s1 of
           (Inr u, s2) \<Rightarrow> (Inr (), s2)
         | (Inl e, s2) \<Rightarrow> (Inr (), s2))"

text \<open>
  \<^verbatim>\<open>
  static _clear(key) {
      try {
          CACHE.delete(key);
          localStorage.removeItem(key);
      } catch (e) { }
  }
  \<close>
\<close>

definition cache_clear :: "key \<Rightarrow> storage \<Rightarrow> unit outcome" where
  "cache_clear k s = (Inr (), localStorage_removeItem k (CACHE_delete k s))"

text \<open>
  \<^verbatim>\<open>
  static _get(key, clearFromStorage = false) {
      try {
          let data = CACHE.get(key);
          if (!data) {
              const raw = localStorage.getItem(key);
              if (!raw) return null;
              data = JSON.parse(raw);
              CACHE.set(key, data);
          }
          if (Date.now() - data.timestamp > TTL) {
              this._clear(key);
              return null;
          }
          return data;
      } catch (e) {
          if (clearFromStorage) this._clear(key);
          return null;
      }
  }
  \<close>
  The result \<open>None\<close> is JavaScript's \<^verbatim>\<open>null\<close>.
\<close>

definition check_ttl :: "key \<Rightarrow> int \<Rightarrow> stored \<Rightarrow> storage \<Rightarrow> stored option outcome" where
  "check_ttl k now data s =
     (if expired TTL now data then (Inr None, snd (cache_clear k s))
      else (Inr (Some data), s))"

definition cache_get :: "key \<Rightarrow> bool \<Rightarrow> int \<Rightarrow> storage \<Rightarrow> stored option outcome" where
  "cache_get k clearFromStorage now s =
     (case cache s k of
        Some data \<Rightarrow> check_ttl k now data s
      | None \<Rightarrow>
          (case localStorage_getItem k s of
             None \<Rightarrow> (Inr None, s)
           | Some r \<Rightarrow>
               (case JSON_parse r of
                  Inl e \<Rightarrow> (Inr None, if clearFromStorage then snd (cache_clear k s) else s)
                | Inr data \<Rightarrow> check_ttl k now data (CACHE_set k data s))))"

definition saveActiveJob :: "string \<Rightarrow> string \<Rightarrow> int \<Rightarrow> storage \<Rightarrow> unit outcome" where
  "saveActiveJob jobId fmt now s = cache_save ''activeJob'' (JobRec jobId fmt) now s"

definition getActiveJob :: "int \<Rightarrow> storage \<Rightarrow> stored option outcome" where
  "getActiveJob now s = cache_get ''activeJob'' True now s"

definition clearActiveJob :: "storage \<Rightarrow> unit outcome" where
  "clearActiveJob s = cache_clear ''activeJob'' s"

text \<open>
  \<^verbatim>\<open>
  static saveCompletedResult(gifUrl, params, format) {
      this._save('completedResult', { gifUrl, params: params || null, format });
      this.clearActiveJob();
  }
  \<close>
  A call that throws would end the sequence; the second call runs on the state the first
  one left.
\<close>

definition saveCompletedResult ::
  "string \<Rightarrow> params option \<Rightarrow> string \<Rightarrow> int \<Rightarrow> storage \<Rightarrow> unit outcome" where
  "saveCompletedResult gifUrl ps fmt now s =
     (case cache_save ''completedResult'' (ResultRec gifUrl ps fmt) now s of
        (Inl e, s1) \<Rightarrow> (Inl e, s1)
      | (Inr u, s1) \<Rightarrow> clearActiveJob s1)"

definition getCompletedResult :: "int \<Rightarrow> storage \<Rightarrow> stored option outcome" where
  "getCompletedResult now s = cache_get ''completedResult'' True now s"

definition clearCompletedResult :: "storage \<Rightarrow> unit outcome" where
  "clearCompletedResult s = cache_clear ''completedResult'' s"

subsection \<open>The history list of the mirrored revision\<close>

text \<open>
  \<^verbatim>\<open>
  static getHistory() {
      try {
          let history = CACHE.get('conversionHistory');
          if (!history) {
              const raw = localStorage.getItem('conversionHistory');
              if (!raw) return [];
              history = JSON.parse(raw);
          }
          const now = Date.now();
          const valid = history.filter(e => now - e.timestamp < TTL);
          if (valid.length !== history.length) {
              localStorage.setItem('conversionHistory', JSON.stringify(valid));
              CACHE.set('conversionHistory', valid);
              return valid;
          }
          CACHE.set('conversionHistory', history);
          return history;
      } catch (e) {
          return [];
      }
  }
  \<close>
  The array that is returned on the two regular paths is the very object that has just
  been put into \<^verbatim>\<open>CACHE\<close>; the \<^verbatim>\<open>[]\<close> of the other paths is a fresh one.  The caller
  \<^verbatim>\<open>saveToHistory\<close> mutates what it gets, so the result carries that fact as a flag
  (\<open>True\<close>: shared with the mirror).  A slot that holds an object instead of an array has
  no \<^verbatim>\<open>filter\<close> method: the call throws and the \<^verbatim>\<open>catch\<close> returns \<^verbatim>\<open>[]\<close>.
\<close>

definition fresh :: "int \<Rightarrow> int \<Rightarrow> hentry \<Rightarrow> bool" where
  "fresh ttl now e = (now - timestamp e < ttl)"

definition filter_valid ::
  "int \<Rightarrow> hentry list \<Rightarrow> storage \<Rightarrow> (hentry list \<times> bool) outcome" where
  "filter_valid now history s =
     (let valid = filter (fresh TTL now) history in
      if length valid \<noteq> length history then
        (case localStorage_setItem ''conversionHistory'' (Json (Arr valid)) s of
           (Inl e, s1) \<Rightarrow> (Inr ([], False), s1)
         | (Inr u, s1) \<Rightarrow> (Inr (valid, True), CACHE_set ''conversionHistory'' (Arr valid) s1))
      else (Inr (history, True), CACHE_set ''conversionHistory'' (Arr history) s))"

definition getHistory :: "int \<Rightarrow> storage \<Rightarrow> (hentry list \<times> bool) outcome" where
  "getHistory now s =
     (case cache s ''conversionHistory'' of
        Some (Arr history) \<Rightarrow> filter_valid now history s
      | Some (Obj p ts) \<Rightarrow> (Inr ([], False), s)
      | None \<Rightarrow>
          (case localStorage_getItem ''conversionHistory'' s of
             None \<Rightarrow> (Inr ([], False), s)
           | Some r \<Rightarrow>
               (case JSON_parse r of
                  Inl e \<Rightarrow> (Inr ([], False), s)
                | Inr (Obj p ts) \<Rightarrow> (Inr ([], False), s)
                | Inr (Arr history) \<Rightarrow> filter_valid now history s)))"

text \<open>
  \<^verbatim>\<open>
  static saveToHistory(url, format, params) {
      const history = this.getHistory();
      history.unshift({ url, format, params: params || null,
                        timestamp: Date.now(), date: new Date().toLocaleString() });
      if (history.length > LIM) history.length = LIM;
      try {
          localStorage.setItem('conversionHistory', JSON.stringify(history));
          CACHE.set('conversionHistory', history); // Cache the array directly
      } catch (e) { }
  }
  \<close>
  \<open>now\<close> is the clock reading of the call, \<open>d\<close> the locale string of the same
  instant.  When the array is shared with the mirror, \<^verbatim>\<open>unshift\<close> and the assignment to
  \<^verbatim>\<open>length\<close> change the mirror's slot at once, before the \<^verbatim>\<open>try\<close> block runs.
\<close>

definition newEntry :: "string \<Rightarrow> string \<Rightarrow> params option \<Rightarrow> int \<Rightarrow> string \<Rightarrow> hentry" where
  "newEntry u f ps now d = \<lparr>url = u, format = f, hparams = ps, timestamp = now, date = d\<rparr>"

definition saveToHistory ::
  "string \<Rightarrow> string \<Rightarrow> params option \<Rightarrow> int \<Rightarrow> string \<Rightarrow> storage \<Rightarrow> unit outcome" where
  "saveToHistory u f ps now d s =
     (case getHistory now s of
        (Inl e, s1) \<Rightarrow> (Inl e, s1)
      | (Inr (history, shared), s1) \<Rightarrow>
          (let h1 = newEntry u f ps now d # history;
               h2 = (if length h1 > LIM_hist then take LIM_hist h1 else h1);
               s2 = (if shared then CACHE_set ''conversionHistory'' (Arr h2) s1 else s1)
           in case localStorage_setItem ''conversionHistory'' (Json (Arr h2)) s2 of
                (Inl e, s3) \<Rightarrow> (Inr (), s3)
              | (Inr v, s3) \<Rightarrow> (Inr (), CACHE_set ''conversionHistory'' (Arr h2) s3)))"

section \<open>The unmirrored revision: \<^verbatim>\<open>saveToStorage\<close>, \<^verbatim>\<open>getFromStorage\<close>, \<^verbatim>\<open>clearFromStorage\<close>\<close>


definition clearFromStorage :: "key \<Rightarrow> storage \<Rightarrow> unit outcome" where
  "clearFromStorage k s = (Inr (), localStorage_removeItem k s)"

text \<open>
  \<^verbatim>\<open>
  static getFromStorage(key, clearFn) {
      try {
          const saved = localStorage.getItem(key);
          if (!saved) return null;
          const data = JSON.parse(saved);
          if (Date.now() - data.timestamp > this.STORAGE_TTL) {
              clearFn();
              return null;
          }
          return data;
      } catch (e) {
          console.warn(...);
          clearFn();
          return null;
      }
  }
  \<close>
  \<open>clearFn\<close> is a callback: if it throws inside the \<^verbatim>\<open>try\<close>, the handler calls it
  again, and what it throws there leaves the function.
\<close>

definition getFromStorage_catch :: "(storage \<Rightarrow> unit outcome) \<Rightarrow> storage \<Rightarrow> stored option outcome" where
  "getFromStorage_catch clearFn s =
     (case clearFn s of
        (Inl e, s1) \<Rightarrow> (Inl e, s1)
      | (Inr u, s1) \<Rightarrow> (Inr None, s1))"

definition getFromStorage ::
  "key \<Rightarrow> (storage \<Rightarrow> unit outcome) \<Rightarrow> int \<Rightarrow> storage \<Rightarrow> stored option outcome" where
  "getFromStorage k clearFn now s =
     (case localStorage_getItem k s of
        None \<Rightarrow> (Inr None, s)
      | Some saved \<Rightarrow>
          (case JSON_parse saved of
             Inl e \<Rightarrow> getFromStorage_catch clearFn s
           | Inr data \<Rightarrow>
               if expired STORAGE_TTL now data then
                 (case clearFn s of
                    (Inl e, s1) \<Rightarrow> getFromStorage_catch clearFn s1
                  | (Inr u, s1) \<Rightarrow> (Inr None, s1))
               else (Inr (Some data), s)))"





definition clearCompletedResult_v1 :: "storage \<Rightarrow> unit outcome" where
  "clearCompletedResult_v1 s = clearFromStorage ''completedResult'' s"

definition getCompletedResult_v1 :: "int \<Rightarrow> storage \<Rightarrow> stored option outcome" where
  "getCompletedResult_v1 now s = getFromStorage ''completedResult'' clearCompletedResult_v1 now s"

text \<open>
  \<^verbatim>\<open>
  static getHistory() {
      try {
          const saved = localStorage.getItem('conversionHistory');
          if (!saved) return [];
          const history = JSON.parse(saved);
          const validHistory = history.filter(entry =>
              Date.now() - entry.timestamp < this.STORAGE_TTL);
          if (validHistory.length !== history.length) {
              localStorage.setItem('conversionHistory', JSON.stringify(validHistory));
          }
          return validHistory;
      } catch (e) { console.warn(...); return []; }
  }
  \<close>
\<close>

definition getHistory_v1 :: "int \<Rightarrow> storage \<Rightarrow> hentry list outcome" where
  "getHistory_v1 now s =
     (case localStorage_getItem ''conversionHistory'' s of
        None \<Rightarrow> (Inr [], s)
      | Some saved \<Rightarrow>
          (case JSON_parse saved of
             Inl e \<Rightarrow> (Inr [], s)
           | Inr (Obj p ts) \<Rightarrow> (Inr [], s)
           | Inr (Arr history) \<Rightarrow>
               (let validHistory = filter (fresh STORAGE_TTL now) history in
                if length validHistory \<noteq> length history then
                  (case localStorage_setItem ''conversionHistory'' (Json (Arr validHistory)) s of
                     (Inl e, s1) \<Rightarrow> (Inr [], s1)
                   | (Inr u, s1) \<Rightarrow> (Inr validHistory, s1))
                else (Inr validHistory, s))))"

text \<open>
  \<^verbatim>\<open>
  static saveToHistory(url, format, params) {
      try {
          const history = this.getHistory() || [];
          const newEntry = { url, format, params: params || null,
                             timestamp: Date.now(), date: new Date().toLocaleString() };
          history.unshift(newEntry);
          if (history.length > this.MAX_HISTORY_ITEMS) {
              history.pop();
          }
          localStorage.setItem('conversionHistory', JSON.stringify(history));
      } catch (e) { console.warn(...); }
  }
  \<close>
\<close>

definition saveToHistory_v1 ::
  "string \<Rightarrow> string \<Rightarrow> params option \<Rightarrow> int \<Rightarrow> string \<Rightarrow> storage \<Rightarrow> unit outcome" where
  "saveToHistory_v1 u f ps now d s =
     (case getHistory_v1 now s of
        (Inl e, s1) \<Rightarrow> (Inr (), s1)
      | (Inr history, s1) \<Rightarrow>
          (let h1 = newEntry u f ps now d # history;
               h2 = (if length h1 > MAX_HISTORY_ITEMS_v1 then butlast h1 else h1)
           in case localStorage_setItem ''conversionHistory'' (Json (Arr h2)) s1 of
                (Inl e, s2) \<Rightarrow> (Inr (), s2)
              | (Inr v, s2) \<Rightarrow> (Inr (), s2)))"

section \<open>The polling loop of the ConversionManager\<close>

text \<open>
  \<^verbatim>\<open>pollJobStatus\<close> exists in three revisions (a \<^verbatim>\<open>poll\<close> closure re-armed with
  \<^verbatim>\<open>setTimeout\<close>, twice, and a \<^verbatim>\<open>while (true)\<close> loop with \<^verbatim>\<open>await wait(interval)\<close>);
  the three take the same decisions in the same order.  The embedding follows the
  \<^verbatim>\<open>while\<close> revision.  Calls that only touch the DOM (\<^verbatim>\<open>_updateProg\<close>, \<^verbatim>\<open>_retryMsg\<close>,
  \<^verbatim>\<open>displayResult\<close>, \<^verbatim>\<open>_resetUI\<close>, the automatic download) are left out.

  The body of a status reply,
  \<^verbatim>\<open>{ status, message?, format?, gif_url?, params? }\<close>:
\<close>

record reply_data =
  status :: "string option"
  message :: "string option"
  dformat :: "string option"
  gif_url :: string
  dparams :: "params option"

text \<open>
  What \<^verbatim>\<open>await Utils.fetchWithTimeout(...)\<close>, \<^verbatim>\<open>if (!res.ok) throw\<close> and
  \<^verbatim>\<open>await res.json()\<close> give together: a parsed body, or an exception (network error,
  abort after the timeout, a status outside 2xx, a body that is not JSON).
\<close>

datatype reply = RequestFailed | Replied reply_data

text \<open>
  The surroundings of one run: the device class, the visibility of the page at each
  instant (\<^verbatim>\<open>this.ui.pageVisible\<close>, kept up to date by the \<^verbatim>\<open>visibilitychange\<close>
  listener), what the n-th status request of the run (counted from 0) comes back with
  and how long it takes, and the locale string of an instant.  Instants and durations
  are milliseconds; \<^verbatim>\<open>interval * 1.5\<close> leaves the integers, so they are rationals.
\<close>

record env =
  isMobile :: bool
  pageVisible :: "rat \<Rightarrow> bool"
  fetchWithTimeout :: "nat \<Rightarrow> reply \<times> rat"
  toLocaleString :: "int \<Rightarrow> string"

text \<open>
  The variables of the loop, the clock, the instants at which status requests were
  issued (latest first), and the storage module's state.
\<close>

record poll_state =
  clock :: rat
  interval :: rat
  errs :: nat
  lastSt :: "string option"
  sent :: "rat list"
  disk :: storage

text \<open>How a run stands: still in the loop, or returned through one of the three exits;
  \<open>Threw\<close> is an exception that leaves \<^verbatim>\<open>pollJobStatus\<close>.\<close>

datatype phase = Polling | Done | Failed | ConnectionLost | Threw exn

definition baseInt :: "env \<Rightarrow> rat" where
  "baseInt e = (if isMobile e then 5000 else 1500)"

definition maxErrs :: "env \<Rightarrow> nat" where
  "maxErrs e = (if isMobile e then 3 else 5)"

definition Date_now :: "poll_state \<Rightarrow> int" where
  "Date_now st = \<lfloor>clock st\<rfloor>"

definition toLowerCase :: "string \<Rightarrow> string" where
  "toLowerCase s =
     map (\<lambda>c. let n = (of_char c :: nat) in if 65 \<le> n \<and> n \<le> 90 then char_of (n + 32) else c) s"

text \<open>Sequencing of two calls: what the first one throws skips the second.\<close>

definition and_then :: "unit outcome \<Rightarrow> (storage \<Rightarrow> unit outcome) \<Rightarrow> unit outcome" where
  "and_then m f = (case m of (Inl e, s) \<Rightarrow> (Inl e, s) | (Inr u, s) \<Rightarrow> f s)"

text \<open>
  \<^verbatim>\<open>
  _complete(data, fmt) {
      StorageManager.clearActiveJob();
      const f = (data.format || fmt).toLowerCase();
      const p = data.params;
      ...
      StorageManager.saveCompletedResult(data.gif_url, p, f);
      StorageManager.saveToHistory(data.gif_url, f, p);
      ...
  }
  _err(data)  { StorageManager.clearActiveJob(); ... }
  _connLost() { StorageManager.clearActiveJob(); ... }
  \<close>
\<close>

definition or_else :: "string option \<Rightarrow> string \<Rightarrow> string" where
  "or_else a b = (case a of None \<Rightarrow> b | Some x \<Rightarrow> if x = [] then b else x)"

definition complete :: "env \<Rightarrow> reply_data \<Rightarrow> string \<Rightarrow> int \<Rightarrow> storage \<Rightarrow> unit outcome" where
  "complete e data fmt now s =
     (let f = toLowerCase (or_else (dformat data) fmt);
          p = dparams data
      in and_then (and_then (clearActiveJob s)
                     (saveCompletedResult (gif_url data) p f now))
           (saveToHistory (gif_url data) f p now (toLocaleString e now)))"

definition err :: "reply_data \<Rightarrow> storage \<Rightarrow> unit outcome" where
  "err data s = clearActiveJob s"

definition connLost :: "storage \<Rightarrow> unit outcome" where
  "connLost s = clearActiveJob s"

text \<open>
  The \<^verbatim>\<open>catch\<close> block and the \<^verbatim>\<open>await wait(interval)\<close> after it:
  \<^verbatim>\<open>
  } catch (e) {
      errs++;
      interval = Math.min(interval * 1.5, 3e4);
      if (errs >= maxErrs) return this._connLost();
      this._retryMsg(errs, lastSt);
  }
  await wait(interval);
  \<close>
\<close>

definition sleep :: "poll_state \<Rightarrow> poll_state" where
  "sleep st = st\<lparr>clock := clock st + interval st\<rparr>"

definition on_catch :: "env \<Rightarrow> poll_state \<Rightarrow> phase \<times> poll_state" where
  "on_catch e st =
     (let st1 = st\<lparr>errs := errs st + 1, interval := min (interval st * (3 / 2)) 30000\<rparr> in
      if errs st1 \<ge> maxErrs e then
        (case connLost (disk st1) of
           (Inr u, d) \<Rightarrow> (ConnectionLost, st1\<lparr>disk := d\<rparr>)
         | (Inl x, d) \<Rightarrow> (Threw x, st1\<lparr>disk := d\<rparr>))
      else (Polling, sleep st1))"

text \<open>
  One pass through the body of \<^verbatim>\<open>while (true)\<close>:
  \<^verbatim>\<open>
  if (!this.ui.pageVisible) { await wait(interval); continue; }
  try {
      const res = await Utils.fetchWithTimeout(`/progress/${jobId}`, ...);
      if (!res.ok) throw new Error(res.statusText);
      const data = await res.json();
      errs = 0;
      interval = baseInt;
      const st = data.status;
      if (lastSt !== st || st === 'running') this._updateProg(data, lastSt);
      lastSt = st;
      if (st === 'done') return this._complete(data, fmt);
      if (st === 'error' || st === 'cancelled') return this._err(data);
  } catch (e) { ... }
  await wait(interval);
  \<close>
  The result \<open>Polling\<close> means that the loop goes round again.  The two \<^verbatim>\<open>return\<close>s sit
  inside the \<^verbatim>\<open>try\<close>: what \<^verbatim>\<open>_complete\<close> or \<^verbatim>\<open>_err\<close> throws lands in the \<^verbatim>\<open>catch\<close>.
\<close>

definition poll_iter :: "env \<Rightarrow> string \<Rightarrow> poll_state \<Rightarrow> phase \<times> poll_state" where
  "poll_iter e fmt st =
     (if \<not> pageVisible e (clock st) then (Polling, sleep st)
      else
        (case fetchWithTimeout e (length (sent st)) of (r, took) \<Rightarrow>
           (let st1 = st\<lparr>sent := clock st # sent st, clock := clock st + took\<rparr> in
            case r of
              RequestFailed \<Rightarrow> on_catch e st1
            | Replied data \<Rightarrow>
                (let st2 = st1\<lparr>errs := 0, interval := baseInt e, lastSt := status data\<rparr> in
                 if status data = Some ''done'' then
                   (case complete e data fmt (Date_now st2) (disk st2) of
                      (Inr u, d) \<Rightarrow> (Done, st2\<lparr>disk := d\<rparr>)
                    | (Inl x, d) \<Rightarrow> on_catch e (st2\<lparr>disk := d\<rparr>))
                 else if status data = Some ''error'' \<or> status data = Some ''cancelled'' then
                   (case err data (disk st2) of
                      (Inr u, d) \<Rightarrow> (Failed, st2\<lparr>disk := d\<rparr>)
                    | (Inl x, d) \<Rightarrow> on_catch e (st2\<lparr>disk := d\<rparr>))
                 else (Polling, sleep st2)))))"

text \<open>
  The loop may go round for ever (a page that stays hidden, a job that stays
  \<^verbatim>\<open>running\<close>); \<open>n\<close> bounds the number of passes, and a run that has used them up is
  still \<open>Polling\<close>.
\<close>

fun poll_loop :: "nat \<Rightarrow> env \<Rightarrow> string \<Rightarrow> poll_state \<Rightarrow> phase \<times> poll_state" where
  "poll_loop 0 e fmt st = (Polling, st)"
| "poll_loop (Suc n) e fmt st =
     (case poll_iter e fmt st of
        (Polling, st1) \<Rightarrow> poll_loop n e fmt st1
      | (ph, st1) \<Rightarrow> (ph, st1))"

text \<open>
  \<^verbatim>\<open>
  async pollJobStatus(jobId, fmt, isResume = false) {
      const isMob = Utils.isMobile;
      const baseInt = isMob ? 5000 : 1500;
      const maxErrs = isMob ? 3 : 5;
      let interval = baseInt;
      let errs = 0;
      let lastSt = null;
      while (true) { ... }
  }
  \<close>
  \<open>t0\<close> is the instant of the call, \<open>s\<close> the storage state it finds.
\<close>

definition poll_init :: "env \<Rightarrow> rat \<Rightarrow> storage \<Rightarrow> poll_state" where
  "poll_init e t0 s =
     \<lparr>clock = t0, interval = baseInt e, errs = 0, lastSt = None, sent = [], disk = s\<rparr>"

definition pollJobStatus :: "nat \<Rightarrow> env \<Rightarrow> string \<Rightarrow> string \<Rightarrow> rat \<Rightarrow> storage \<Rightarrow> phase \<times> poll_state" where
  "pollJobStatus n e jobId fmt t0 s = poll_loop n e fmt (poll_init e t0 s)"

section \<open>Resuming after a page load\<close>

text \<open>
  \<^verbatim>\<open>
  async checkAndResumeJob() {
      const saved = StorageManager.getCompletedResult();
      if (saved) return this.displayCompletedResult(saved);
      const job = StorageManager.getActiveJob();
      if (!job) return;
      try {
          const res = await Utils.fetchWithTimeout(`/progress/${job.jobId}`, ..., 1e4);
          if (!res.ok) throw new Error(res.status);
          const data = await res.json();
          const st = data.status;
          if (st && !['done', 'error', 'cancelled'].includes(st)) {
              ...
              this.pollJobStatus(job.jobId, job.format, true);
          } else {
              StorageManager.clearActiveJob();
          }
      } catch (e) {
          console.warn('Resume failed:', e.message);
          StorageManager.clearActiveJob();
      }
  }
  \<close>
  The function is embedded as the list of what it does, in order: the stored result it
  displays, the status request it issues, the call of \<^verbatim>\<open>pollJobStatus\<close> it makes.
  \<open>r\<close> is what the status request comes back with, if one is issued.  A slot that does
  not hold a job record has no \<^verbatim>\<open>jobId\<close> (\<open>None\<close> is \<^verbatim>\<open>undefined\<close>).
\<close>

datatype action =
    Display stored
  | StatusRequest "string option"
  | CallPoll "string option" "string option"

fun jobId_of :: "stored \<Rightarrow> string option" where
  "jobId_of (Obj (JobRec j f) ts) = Some j"
| "jobId_of (Obj (ResultRec u p f) ts) = None"
| "jobId_of (Arr h) = None"

fun format_of :: "stored \<Rightarrow> string option" where
  "format_of (Obj (JobRec j f) ts) = Some f"
| "format_of (Obj (ResultRec u p f) ts) = Some f"
| "format_of (Arr h) = None"

definition terminal :: "string list" where
  "terminal = [''done'', ''error'', ''cancelled'']"

definition truthy :: "string option \<Rightarrow> bool" where
  "truthy st = (case st of None \<Rightarrow> False | Some x \<Rightarrow> x \<noteq> [])"

definition resumable :: "string option \<Rightarrow> bool" where
  "resumable st = (truthy st \<and> (case st of None \<Rightarrow> False | Some x \<Rightarrow> x \<notin> set terminal))"

definition resume_catch :: "action list \<Rightarrow> storage \<Rightarrow> action list outcome" where
  "resume_catch done s =
     (case clearActiveJob s of
        (Inl x, s1) \<Rightarrow> (Inl x, s1)
      | (Inr u, s1) \<Rightarrow> (Inr done, s1))"

definition checkAndResumeJob :: "reply \<Rightarrow> int \<Rightarrow> storage \<Rightarrow> action list outcome" where
  "checkAndResumeJob r now s =
     (case getCompletedResult now s of
        (Inl x, s1) \<Rightarrow> (Inl x, s1)
      | (Inr (Some saved), s1) \<Rightarrow> (Inr [Display saved], s1)
      | (Inr None, s1) \<Rightarrow>
          (case getActiveJob now s1 of
             (Inl x, s2) \<Rightarrow> (Inl x, s2)
           | (Inr None, s2) \<Rightarrow> (Inr [], s2)
           | (Inr (Some job), s2) \<Rightarrow>
               (let asked = [StatusRequest (jobId_of job)] in
                case r of
                  RequestFailed \<Rightarrow> resume_catch asked s2
                | Replied data \<Rightarrow>
                    if resumable (status data) then
                      (Inr (asked @ [CallPoll (jobId_of job) (format_of job)]), s2)
                    else
                      (case clearActiveJob s2 of
                         (Inl x, s3) \<Rightarrow> resume_catch asked s3
                       | (Inr u, s3) \<Rightarrow> (Inr asked, s3)))))"

section \<open>The handlers of the UIManager that touch the storage\<close>

text \<open>
  \<^verbatim>\<open>
  async startConversion() {
      // Clear any existing completed result when starting new conversion
      StorageManager.clearCompletedResult();
      ...
      this.elements.submitBtn.disabled = true;
      ...
      const xhr = new XMLHttpRequest();
      xhr.onload = () => {
          if (xhr.status >= 200 && xhr.status < 300) {
              ...
              StorageManager.saveActiveJob(jobId, this.elements.formatSelect?.value || 'avif');
              window.conversionManager.pollJobStatus(jobId, ...);
          } ...
      };
      xhr.open('POST', '/start');
      xhr.send(data);
  }
  async resetForm() {
      ...
      StorageManager.clearCompletedResult();
      StorageManager.clearActiveJob();
      this.elements.submitBtn.disabled = false;
      ...
  }
  \<close>
  \<^verbatim>\<open>startConversion\<close> returns once the upload is on its way; \<^verbatim>\<open>xhr.onload\<close> runs when
  the server has answered, and other handlers of the page may run in between.
\<close>

definition startConversion :: "storage \<Rightarrow> unit outcome" where
  "startConversion s = clearCompletedResult s"

definition xhr_onload :: "string \<Rightarrow> string \<Rightarrow> int \<Rightarrow> storage \<Rightarrow> unit outcome" where
  "xhr_onload jobId fmt now s = saveActiveJob jobId fmt now s"

definition resetForm :: "storage \<Rightarrow> unit outcome" where
  "resetForm s = and_then (clearCompletedResult s) clearActiveJob"

text \<open>
  The page as a whole, as far as the storage is concerned: the storage module's state,
  whether the submit button is disabled, whether an upload is on its way, and the
  \<^verbatim>\<open>pollJobStatus\<close> loops that have been started and have not returned (job id and
  format of each).  Nothing in \<^verbatim>\<open>resetForm\<close> reaches a running loop: the loop has no
  cancellation flag.
\<close>

record page =
  store :: storage
  submitDisabled :: bool
  uploading :: bool
  loops :: "(string \<times> string) list"

datatype event =
    Submit
  | UploadAnswered string string int
  | PollSeesDone string reply_data int
  | PollSeesError string reply_data
  | ResetClicked int

text \<open>
  One handler run to its end.  \<open>None\<close>: the event cannot happen in this state (the
  submit button is disabled; no upload is on its way; no loop polls that job).
\<close>

fun handle :: "env \<Rightarrow> event \<Rightarrow> page \<Rightarrow> page option" where
  "handle e Submit pg =
     (if submitDisabled pg then None
      else Some (pg\<lparr>store := snd (startConversion (store pg)),
                     submitDisabled := True, uploading := True\<rparr>))"
| "handle e (UploadAnswered jobId fmt now) pg =
     (if \<not> uploading pg then None
      else Some (pg\<lparr>store := snd (xhr_onload jobId fmt now (store pg)),
                     uploading := False, loops := (jobId, fmt) # loops pg\<rparr>))"
| "handle e (PollSeesDone jobId data now) pg =
     (case map_of (loops pg) jobId of
        None \<Rightarrow> None
      | Some fmt \<Rightarrow>
          Some (pg\<lparr>store := snd (complete e data fmt now (store pg)),
                    submitDisabled := False,
                    loops := filter (\<lambda>l. fst l \<noteq> jobId) (loops pg)\<rparr>))"
| "handle e (PollSeesError jobId data) pg =
     (case map_of (loops pg) jobId of
        None \<Rightarrow> None
      | Some fmt \<Rightarrow>
          Some (pg\<lparr>store := snd (err data (store pg)),
                    submitDisabled := False,
                    loops := filter (\<lambda>l. fst l \<noteq> jobId) (loops pg)\<rparr>))"
| "handle e (ResetClicked now) pg =
     Some (pg\<lparr>store := snd (resetForm (store pg)), submitDisabled := False\<rparr>)"

fun handle_all :: "env \<Rightarrow> event list \<Rightarrow> page \<Rightarrow> page option" where
  "handle_all e [] pg = Some pg"
| "handle_all e (ev # evs) pg =
     (case handle e ev pg of None \<Rightarrow> None | Some pg1 \<Rightarrow> handle_all e evs pg1)"

text \<open>What the two getters report at an instant.\<close>

definition holds_result :: "int \<Rightarrow> storage \<Rightarrow> bool" where
  "holds_result now s = (case fst (getCompletedResult now s) of Inr (Some v) \<Rightarrow> True | _ \<Rightarrow> False)"

definition holds_job :: "int \<Rightarrow> storage \<Rightarrow> bool" where
  "holds_job now s = (case fst (getActiveJob now s) of Inr (Some v) \<Rightarrow> True | _ \<Rightarrow> False)"

section \<open>Sequences of calls of \<^verbatim>\<open>saveToHistory\<close>\<close>

text \<open>
  One call of \<^verbatim>\<open>saveToHistory(url, format, params)\<close> with its surroundings: the clock
  reading and the locale string of the instant of the call.
\<close>

type_synonym push = "string \<times> string \<times> params option \<times> int \<times> string"

fun entry_of :: "push \<Rightarrow> hentry" where
  "entry_of (u, f, ps, now, d) = newEntry u f ps now d"

fun pushed_at :: "push \<Rightarrow> int" where
  "pushed_at (u, f, ps, now, d) = now"

fun push_all :: "push list \<Rightarrow> storage \<Rightarrow> storage" where
  "push_all [] s = s"
| "push_all ((u, f, ps, now, d) # rest) s = push_all rest (snd (saveToHistory u f ps now d s))"

fun push_all_v1 :: "push list \<Rightarrow> storage \<Rightarrow> storage" where
  "push_all_v1 [] s = s"
| "push_all_v1 ((u, f, ps, now, d) # rest) s =
     push_all_v1 rest (snd (saveToHistory_v1 u f ps now d s))"

text \<open>The stored history of the unmirrored revision; a slot that holds no array counts
  as the empty history.\<close>

definition stored_history :: "storage \<Rightarrow> hentry list" where
  "stored_history s =
     (case durable s ''conversionHistory'' of Some (Json (Arr h)) \<Rightarrow> h | _ \<Rightarrow> [])"

section \<open>Concrete states and runs used in the examples\<close>

definition s_empty :: storage where
  "s_empty = \<lparr>cache = Map.empty, durable = Map.empty, writable = True\<rparr>"

definition s_old :: storage where
  "s_old = \<lparr>cache = Map.empty,
            durable = [''completedResult'' \<mapsto> Json (Obj (ResultRec ''/out/j1.avif'' None ''avif'') 0)],
            writable = True\<rparr>"

definition s_full :: storage where
  "s_full = \<lparr>cache = Map.empty, durable = Map.empty, writable = False\<rparr>"

definition d_done :: reply_data where
  "d_done = \<lparr>status = Some ''done'', message = None, dformat = Some ''avif'',
             gif_url = ''/out/j1.avif'', dparams = None\<rparr>"

definition d_running :: reply_data where
  "d_running = \<lparr>status = Some ''running'', message = Some ''50%'', dformat = None,
                gif_url = [], dparams = None\<rparr>"

text \<open>A desktop browser, the page always visible, every status request timing out
  after the 15 seconds \<^verbatim>\<open>pollJobStatus\<close> allows.\<close>

definition e_timeouts :: env where
  "e_timeouts = \<lparr>isMobile = False, pageVisible = (\<lambda>t. True),
                 fetchWithTimeout = (\<lambda>n. (RequestFailed, 15000)),
                 toLocaleString = (\<lambda>t. [])\<rparr>"

definition page0 :: page where
  "page0 = \<lparr>store = s_empty, submitDisabled = False, uploading = False, loops = []\<rparr>"

text \<open>
  A sequence of events on one page: a first file is submitted and its job \<^verbatim>\<open>j1\<close> is
  polled; the user resets the form, which re-enables the submit button but leaves the
  loop for \<^verbatim>\<open>j1\<close> running; a second file is submitted; while it uploads, the loop for
  \<^verbatim>\<open>j1\<close> sees \<^verbatim>\<open>done\<close>; then the upload is answered with job \<^verbatim>\<open>j2\<close>.
\<close>

definition overlap :: "event list" where
  "overlap = [Submit, UploadAnswered ''j1'' ''avif'' 1000, ResetClicked 2000, Submit,
              PollSeesDone ''j1'' d_done 3000, UploadAnswered ''j2'' ''webp'' 4000]"

text \<open>A store that holds the pointer to job \<^verbatim>\<open>j1\<close>, saved at time 0.\<close>

definition s_job :: storage where
  "s_job = snd (saveActiveJob ''j1'' ''avif'' 0 s_empty)"

text \<open>
  Scenario A of the specification: \<^verbatim>\<open>queued\<close>, then \<^verbatim>\<open>running\<close> with message
  \<^verbatim>\<open>50%\<close>, then \<^verbatim>\<open>done\<close>; every answer takes 100 ms.
\<close>

definition d_queued :: reply_data where
  "d_queued = \<lparr>status = Some ''queued'', message = None, dformat = None,
               gif_url = [], dparams = None\<rparr>"

definition e_scenarioA :: env where
  "e_scenarioA = \<lparr>isMobile = False, pageVisible = (\<lambda>t. True),
                  fetchWithTimeout = (\<lambda>n. if n = 0 then (Replied d_queued, 100)
                                          else if n = 1 then (Replied d_running, 100)
                                          else (Replied d_done, 100)),
                  toLocaleString = (\<lambda>t. [])\<rparr>"

text \<open>
  A desktop browser whose page is hidden from 1000 ms to 3000 ms.  The first status
  request fails after 100 ms, the later ones are answered with \<^verbatim>\<open>running\<close>.
\<close>

definition e_hidden :: env where
  "e_hidden = \<lparr>isMobile = False, pageVisible = (\<lambda>t. t < 1000 \<or> 3000 \<le> t),
               fetchWithTimeout = (\<lambda>n. if n = 0 then (RequestFailed, 100)
                                       else (Replied d_running, 100)),
               toLocaleString = (\<lambda>t. [])\<rparr>"

text \<open>Three conversions, one a day.\<close>

definition daily :: "push list" where
  "daily = [(''/out/a.avif'', ''avif'', None, 0, ''day 1''),
            (''/out/b.avif'', ''avif'', None, 86400000, ''day 2''),
            (''/out/c.avif'', ''avif'', None, 172800000, ''day 3'')]"

text \<open>Six conversions, a minute apart.\<close>

definition quick :: "push list" where
  "quick = [(''/out/a.avif'', ''avif'', None, 0, ''12:00''),
            (''/out/b.avif'', ''avif'', None, 60000, ''12:01''),
            (''/out/c.avif'', ''avif'', None, 120000, ''12:02''),
            (''/out/d.avif'', ''avif'', None, 180000, ''12:03''),
            (''/out/e.avif'', ''avif'', None, 240000, ''12:04''),
            (''/out/f.avif'', ''avif'', None, 300000, ''12:05'')]"

text \<open>A desktop browser, the page always visible: the first status request is answered
  with \<^verbatim>\<open>running\<close>, every later one times out.\<close>

definition e_flaky :: env where
  "e_flaky = \<lparr>isMobile = False, pageVisible = (\<lambda>t. True),
              fetchWithTimeout = (\<lambda>n. if n = 0 then (Replied d_running, 100)
                                      else (RequestFailed, 15000)),
              toLocaleString = (\<lambda>t. [])\<rparr>"

section \<open>Basic facts about the storage module\<close>

lemmas prim_defs = localStorage_setItem_def localStorage_getItem_def localStorage_removeItem_def
  JSON_parse_def CACHE_set_def CACHE_delete_def

lemma getCompletedResult_v1_unfold:
  "getCompletedResult_v1 now s =
     getFromStorage ''completedResult'' (clearFromStorage ''completedResult'') now s"
  by (simp add: getCompletedResult_v1_def clearCompletedResult_v1_def [abs_def])


lemma cache_save_ok: "fst (cache_save k v t s) = Inr ()"
  by (simp add: cache_save_def prim_defs Let_def)

lemma cache_clear_ok: "fst (cache_clear k s) = Inr ()"
  by (simp add: cache_clear_def)


lemma and_then_ok:
  "fst m = Inr () \<Longrightarrow> (\<And>s. fst (f s) = Inr ()) \<Longrightarrow> fst (and_then m f) = Inr ()"
  by (cases m) (auto simp: and_then_def)

lemma and_then_snd:
  "fst m = Inr () \<Longrightarrow> snd (and_then m f) = snd (f (snd m))"
  by (cases m) (auto simp: and_then_def)

lemma saveCompletedResult_eq:
  "saveCompletedResult u p f t s = clearActiveJob (snd (cache_save ''completedResult'' (ResultRec u p f) t s))"
  using cache_save_ok [of "''completedResult''" "ResultRec u p f" t s]
  by (cases "cache_save ''completedResult'' (ResultRec u p f) t s")
     (auto simp: saveCompletedResult_def)


lemma clear_then_get_none:
  "fst (cache_get k c t (snd (cache_clear k s))) = Inr None"
  by (simp add: cache_get_def cache_clear_def prim_defs)

lemma cache_get_same_slot:
  "cache s' k' = cache s k' \<Longrightarrow> durable s' k' = durable s k' \<Longrightarrow>
   fst (cache_get k' c t s') = fst (cache_get k' c t s)"
  by (auto simp: cache_get_def check_ttl_def prim_defs split: option.splits sum.splits)

lemma saveToHistory_ok: "fst (saveToHistory u f p t d s) = Inr ()"
  by (auto simp: saveToHistory_def getHistory_def filter_valid_def prim_defs Let_def
           split: option.splits stored.splits raw.splits prod.splits sum.splits if_splits)

lemma getHistory_other_key:
  "k \<noteq> ''conversionHistory'' \<Longrightarrow>
   cache (snd (getHistory t s)) k = cache s k \<and> durable (snd (getHistory t s)) k = durable s k"
  by (auto simp: getHistory_def filter_valid_def prim_defs Let_def
           split: option.splits stored.splits raw.splits)

lemma saveToHistory_other_key:
  "k \<noteq> ''conversionHistory'' \<Longrightarrow>
   cache (snd (saveToHistory u f p t d s)) k = cache s k
   \<and> durable (snd (saveToHistory u f p t d s)) k = durable s k"
  using getHistory_other_key [of k t s]
  by (cases "getHistory t s")
     (auto simp: saveToHistory_def prim_defs Let_def split: sum.splits prod.splits)

lemma complete_ok: "fst (complete e data fmt t s) = Inr ()"
  by (simp add: complete_def Let_def and_then_ok clearActiveJob_def cache_clear_ok
        saveCompletedResult_eq saveToHistory_ok)


lemma clearActiveJob_then_get:
  "fst (getActiveJob t (snd (clearActiveJob s))) = Inr None"
  by (simp add: getActiveJob_def clearActiveJob_def clear_then_get_none)

lemma getActiveJob_after_history:
  "fst (getActiveJob t' (snd (saveToHistory u f p t d s))) = fst (getActiveJob t' s)"
  unfolding getActiveJob_def
  by (rule cache_get_same_slot) (simp_all add: saveToHistory_other_key)

section \<open>Basic facts about the polling loop\<close>

lemma err_ok: "fst (err data s) = Inr ()"
  by (simp add: err_def clearActiveJob_def cache_clear_ok)

lemma connLost_ok: "fst (connLost s) = Inr ()"
  by (simp add: connLost_def clearActiveJob_def cache_clear_ok)

lemma on_catch_eq:
  "on_catch e st =
     (if maxErrs e \<le> errs st + 1
      then (ConnectionLost,
            st\<lparr>errs := errs st + 1, interval := min (interval st * (3 / 2)) 30000,
                disk := snd (connLost (disk st))\<rparr>)
      else (Polling,
            st\<lparr>errs := errs st + 1, interval := min (interval st * (3 / 2)) 30000,
                clock := clock st + min (interval st * (3 / 2)) 30000\<rparr>))"
  using connLost_ok [of "disk st"]
  by (cases "connLost (disk st)") (auto simp: on_catch_def Let_def sleep_def)

lemma poll_iter_hidden:
  "\<not> pageVisible e (clock st) \<Longrightarrow> poll_iter e fmt st = (Polling, st\<lparr>clock := clock st + interval st\<rparr>)"
  by (simp add: poll_iter_def sleep_def)

lemma poll_iter_failed:
  "pageVisible e (clock st) \<Longrightarrow> fetchWithTimeout e (length (sent st)) = (RequestFailed, d) \<Longrightarrow>
   poll_iter e fmt st = on_catch e (st\<lparr>sent := clock st # sent st, clock := clock st + d\<rparr>)"
  by (simp add: poll_iter_def Let_def)

lemma poll_iter_replied:
  "pageVisible e (clock st) \<Longrightarrow> fetchWithTimeout e (length (sent st)) = (Replied data, d) \<Longrightarrow>
   poll_iter e fmt st =
     (let st2 = st\<lparr>sent := clock st # sent st, clock := clock st + d, errs := 0,
                    interval := baseInt e, lastSt := status data\<rparr> in
      if status data = Some ''done'' then
        (Done, st2\<lparr>disk := snd (complete e data fmt \<lfloor>clock st + d\<rfloor> (disk st))\<rparr>)
      else if status data = Some ''error'' \<or> status data = Some ''cancelled'' then
        (Failed, st2\<lparr>disk := snd (err data (disk st))\<rparr>)
      else (Polling, st2\<lparr>clock := clock st + d + baseInt e\<rparr>))"
  using complete_ok [of e data fmt "\<lfloor>clock st + d\<rfloor>" "disk st"] err_ok [of data "disk st"]
  by (cases "complete e data fmt \<lfloor>clock st + d\<rfloor> (disk st)"; cases "err data (disk st)")
     (auto simp: poll_iter_def Let_def sleep_def Date_now_def)

lemma poll_loop_add:
  "poll_loop (n + m) e fmt st =
     (case poll_loop n e fmt st of (Polling, st1) \<Rightarrow> poll_loop m e fmt st1 | r \<Rightarrow> r)"
proof (induction n arbitrary: st)
  case 0
  show ?case by simp
next
  case (Suc n)
  show ?case
  proof (cases "poll_iter e fmt st")
    case (Pair ph st1)
    then show ?thesis using Suc.IH [of st1] by (cases ph) auto
  qed
qed

lemma baseInt_bounds: "0 < baseInt e \<and> baseInt e \<le> 30000"
  by (simp add: baseInt_def)

lemma poll_iter_interval:
  assumes "baseInt e \<le> interval st" "interval st \<le> 30000"
  shows "baseInt e \<le> interval (snd (poll_iter e fmt st)) \<and> interval (snd (poll_iter e fmt st)) \<le> 30000"
proof (cases "pageVisible e (clock st)")
  case False
  then show ?thesis using assms by (simp add: poll_iter_hidden)
next
  case True
  obtain r d where f: "fetchWithTimeout e (length (sent st)) = (r, d)"
    by (cases "fetchWithTimeout e (length (sent st))")
  show ?thesis
  proof (cases r)
    case RequestFailed
    with True f assms baseInt_bounds [of e] show ?thesis
      by (auto simp: poll_iter_failed on_catch_eq min_def)
  next
    case (Replied data)
    with True f assms baseInt_bounds [of e] show ?thesis
      by (auto simp: poll_iter_replied Let_def)
  qed
qed

lemma poll_loop_interval:
  "baseInt e \<le> interval st \<Longrightarrow> interval st \<le> 30000 \<Longrightarrow>
   baseInt e \<le> interval (snd (poll_loop n e fmt st)) \<and> interval (snd (poll_loop n e fmt st)) \<le> 30000"
proof (induction n arbitrary: st)
  case 0
  then show ?case by simp
next
  case (Suc n)
  obtain ph st1 where it: "poll_iter e fmt st = (ph, st1)" by (cases "poll_iter e fmt st")
  from poll_iter_interval [OF Suc.prems, of fmt] it
  have b: "baseInt e \<le> interval st1" "interval st1 \<le> 30000" by simp_all
  show ?case using it b Suc.IH [OF b] by (cases ph) simp_all
qed

lemmas example_defs = s_empty_def s_full_def s_old_def s_job_def d_done_def d_running_def d_queued_def
  e_timeouts_def e_scenarioA_def e_hidden_def

lemmas storage_defs = getCompletedResult_def getActiveJob_def
  clearCompletedResult_def clearActiveJob_def saveActiveJob_def saveCompletedResult_def
  saveToHistory_def getHistory_def filter_valid_def newEntry_def LIM_hist_def
  cache_save_def cache_get_def check_ttl_def cache_clear_def TTL_def prim_defs

lemmas poll_defs = pollJobStatus_def poll_init_def poll_iter_def on_catch_def sleep_def
  baseInt_def maxErrs_def complete_def err_def connLost_def and_then_def Date_now_def
  toLowerCase_def or_else_def

lemma run2: "poll_loop 2 e_timeouts ''avif'' (poll_init e_timeouts 0 s_empty)
   = (Polling, \<lparr>clock = 35625, interval = 3375, errs = 2, lastSt = None, sent = [17250, 0], disk = s_empty\<rparr>)"
  by (simp add: numeral_2_eq_2 poll_defs example_defs Let_def)

lemma all_fail_run:
  assumes vis: "\<And>t. pageVisible e t" and fail: "\<And>k. fst (fetchWithTimeout e k) = RequestFailed"
  shows "errs st < maxErrs e \<Longrightarrow> maxErrs e - errs st \<le> n \<Longrightarrow>
         fst (poll_loop n e fmt st) = ConnectionLost
         \<and> length (sent (snd (poll_loop n e fmt st))) = length (sent st) + (maxErrs e - errs st)
         \<and> errs (snd (poll_loop n e fmt st)) = maxErrs e"
proof (induction n arbitrary: st)
  case 0
  then show ?case by simp
next
  case (Suc n)
  obtain d where f: "fetchWithTimeout e (length (sent st)) = (RequestFailed, d)"
    using fail [of "length (sent st)"] by (cases "fetchWithTimeout e (length (sent st))") auto
  let ?st1 = "st\<lparr>sent := clock st # sent st, clock := clock st + d\<rparr>"
  have it: "poll_iter e fmt st = on_catch e ?st1"
    using vis f by (simp add: poll_iter_failed)
  show ?case
  proof (cases "maxErrs e \<le> errs st + 1")
    case True
    with Suc.prems it show ?thesis by (simp add: on_catch_eq)
  next
    case False
    let ?st2 = "?st1\<lparr>errs := errs st + 1, interval := min (interval st * (3 / 2)) 30000,
                clock := clock st + d + min (interval st * (3 / 2)) 30000\<rparr>"
    from False it have it2: "poll_iter e fmt st = (Polling, ?st2)" by (simp add: on_catch_eq)
    from False Suc.prems have "errs ?st2 < maxErrs e" "maxErrs e - errs ?st2 \<le> n" by simp_all
    from Suc.IH [OF this] it2 False show ?thesis by simp
  qed
qed

lemma runA2:
  "poll_loop 2 e_scenarioA ''avif'' (poll_init e_scenarioA 0 s_job)
   = (Polling, \<lparr>clock = 3200, interval = 1500, errs = 0, lastSt = Some ''running'',
                sent = [1600, 0], disk = s_job\<rparr>)"
  by (simp add: numeral_2_eq_2 poll_defs example_defs Let_def)

lemma poll_iter_lost_cleared:
  "fst (poll_iter e fmt st) = ConnectionLost \<Longrightarrow>
   fst (getActiveJob t (disk (snd (poll_iter e fmt st)))) = Inr None"
proof (cases "pageVisible e (clock st)")
  case False
  assume "fst (poll_iter e fmt st) = ConnectionLost"
  with False show ?thesis by (simp add: poll_iter_hidden)
next
  case True
  assume l: "fst (poll_iter e fmt st) = ConnectionLost"
  obtain r d where f: "fetchWithTimeout e (length (sent st)) = (r, d)"
    by (cases "fetchWithTimeout e (length (sent st))")
  show ?thesis
  proof (cases r)
    case RequestFailed
    with True f l show ?thesis
      by (auto simp: poll_iter_failed on_catch_eq connLost_def clearActiveJob_then_get
               split: if_splits)
  next
    case (Replied data)
    with True f l show ?thesis
      by (auto simp: poll_iter_replied Let_def split: if_splits)
  qed
qed

lemma poll_iter_sent:
  "sent (snd (poll_iter e fmt st)) =
     (if pageVisible e (clock st) then clock st # sent st else sent st)"
proof (cases "pageVisible e (clock st)")
  case False
  then show ?thesis by (simp add: poll_iter_hidden)
next
  case True
  obtain r d where f: "fetchWithTimeout e (length (sent st)) = (r, d)"
    by (cases "fetchWithTimeout e (length (sent st))")
  show ?thesis
  proof (cases r)
    case RequestFailed
    with True f show ?thesis by (simp add: poll_iter_failed on_catch_eq)
  next
    case (Replied data)
    with True f show ?thesis by (simp add: poll_iter_replied Let_def)
  qed
qed




lemma resume_catch_eq:
  "resume_catch done s = (Inr done, snd (clearActiveJob s))"
  by (simp add: resume_catch_def clearActiveJob_def cache_clear_def)

lemma fail_run_from:
  assumes vis: "\<And>t. pageVisible e t"
  shows "\<forall>k \<ge> length (sent st). fst (fetchWithTimeout e k) = RequestFailed \<Longrightarrow>
         errs st < maxErrs e \<Longrightarrow> maxErrs e - errs st \<le> n \<Longrightarrow>
         fst (poll_loop n e fmt st) = ConnectionLost
         \<and> length (sent (snd (poll_loop n e fmt st))) = length (sent st) + (maxErrs e - errs st)
         \<and> errs (snd (poll_loop n e fmt st)) = maxErrs e"
proof (induction n arbitrary: st)
  case 0
  then show ?case by simp
next
  case (Suc n)
  from Suc.prems(1) have "fst (fetchWithTimeout e (length (sent st))) = RequestFailed" by simp
  then obtain d where f: "fetchWithTimeout e (length (sent st)) = (RequestFailed, d)"
    by (cases "fetchWithTimeout e (length (sent st))") auto
  let ?st1 = "st\<lparr>sent := clock st # sent st, clock := clock st + d\<rparr>"
  have it: "poll_iter e fmt st = on_catch e ?st1"
    using vis f by (simp add: poll_iter_failed)
  show ?case
  proof (cases "maxErrs e \<le> errs st + 1")
    case True
    with Suc.prems it show ?thesis by (simp add: on_catch_eq)
  next
    case False
    let ?st2 = "?st1\<lparr>errs := errs st + 1, interval := min (interval st * (3 / 2)) 30000,
                clock := clock st + d + min (interval st * (3 / 2)) 30000\<rparr>"
    from False it have it2: "poll_iter e fmt st = (Polling, ?st2)" by (simp add: on_catch_eq)
    from Suc.prems(1) have a: "\<forall>k \<ge> length (sent ?st2). fst (fetchWithTimeout e k) = RequestFailed"
      by simp
    from False Suc.prems have b: "errs ?st2 < maxErrs e" "maxErrs e - errs ?st2 \<le> n" by simp_all
    from Suc.IH [OF a b] it2 False show ?thesis by simp
  qed
qed

lemma run4:
  "poll_loop 4 e_timeouts ''avif'' (poll_init e_timeouts 0 s_job)
   = (Polling, \<lparr>clock = 313125 / 4, interval = 30375 / 4, errs = 4, lastSt = None,
                sent = [111375 / 2, 35625, 17250, 0], disk = s_job\<rparr>)"
  by (simp add: eval_nat_numeral poll_defs e_timeouts_def Let_def)

lemma run_flaky1:
  "poll_loop 1 e_flaky ''avif'' (poll_init e_flaky 0 s_job)
   = (Polling, \<lparr>clock = 1600, interval = 1500, errs = 0, lastSt = Some ''running'',
                sent = [0], disk = s_job\<rparr>)"
  by (simp add: poll_defs e_flaky_def d_running_def Let_def)

section \<open>Basic facts about the history list\<close>

lemma take_Cons_take: "take L (e # take L xs) = take L (e # xs)"
  by (cases L) simp_all

lemma hist_step:
  assumes h: "h = take L (rev es @ rest)" and fr: "\<forall>x \<in> set es. P x"
  shows "\<exists>rest'. take L (e # filter P h) = take L (rev (es @ [e]) @ rest')"
proof (cases "L \<le> length es")
  case True
  with h have "h = take L (rev es)" by simp
  moreover from fr have "filter P (take L (rev es)) = take L (rev es)"
    by (auto simp: filter_id_conv dest: in_set_takeD)
  ultimately have "take L (e # filter P h) = take L (rev (es @ [e]) @ [])"
    by (simp add: take_Cons_take)
  then show ?thesis by blast
next
  case False
  with h have "h = rev es @ take (L - length es) rest" by simp
  moreover from fr have "filter P (rev es) = rev es" by (auto simp: filter_id_conv)
  ultimately have "take L (e # filter P h)
      = take L (rev (es @ [e]) @ filter P (take (L - length es) rest))"
    by simp
  then show ?thesis by blast
qed

lemma hist_full:
  "h = take L (rev es @ rest) \<Longrightarrow> L \<le> length es \<Longrightarrow> h = take L (rev es)"
  by simp


lemma filter_same_length: "length (filter P xs) = length xs \<Longrightarrow> filter P xs = xs"
proof (induction xs)
  case Nil
  show ?case by simp
next
  case (Cons x xs)
  have le: "length (filter P xs) \<le> length xs" by (rule length_filter_le)
  show ?case
  proof (cases "P x")
    case True
    with Cons show ?thesis by simp
  next
    case False
    with Cons.prems le show ?thesis by simp
  qed
qed

lemma push_cached:
  assumes "writable s" and "cache s ''conversionHistory'' = Some (Arr h)"
  shows "cache (snd (saveToHistory u f p t d s)) ''conversionHistory''
           = Some (Arr (take LIM_hist (newEntry u f p t d # filter (fresh TTL t) h)))
         \<and> durable (snd (saveToHistory u f p t d s)) ''conversionHistory''
           = Some (Json (Arr (take LIM_hist (newEntry u f p t d # filter (fresh TTL t) h))))
         \<and> writable (snd (saveToHistory u f p t d s))"
  using assms
  by (auto simp: saveToHistory_def getHistory_def filter_valid_def prim_defs Let_def
             filter_same_length)

lemma push_any:
  assumes "writable s"
  shows "\<exists>h0. cache (snd (saveToHistory u f p t d s)) ''conversionHistory''
           = Some (Arr (take LIM_hist (newEntry u f p t d # h0)))
         \<and> durable (snd (saveToHistory u f p t d s)) ''conversionHistory''
           = Some (Json (Arr (take LIM_hist (newEntry u f p t d # h0))))
         \<and> writable (snd (saveToHistory u f p t d s))"
proof (cases "cache s ''conversionHistory''")
  case None
  show ?thesis
  proof (cases "durable s ''conversionHistory''")
    case dn: None
    with None assms have "cache (snd (saveToHistory u f p t d s)) ''conversionHistory''
           = Some (Arr (take LIM_hist (newEntry u f p t d # [])))
         \<and> durable (snd (saveToHistory u f p t d s)) ''conversionHistory''
           = Some (Json (Arr (take LIM_hist (newEntry u f p t d # []))))
         \<and> writable (snd (saveToHistory u f p t d s))"
      by (simp add: saveToHistory_def getHistory_def prim_defs Let_def LIM_hist_def)
    then show ?thesis by blast
  next
    case (Some r)
    show ?thesis
    proof (cases r)
      case Garbled
      with None Some assms have "cache (snd (saveToHistory u f p t d s)) ''conversionHistory''
           = Some (Arr (take LIM_hist (newEntry u f p t d # [])))
         \<and> durable (snd (saveToHistory u f p t d s)) ''conversionHistory''
           = Some (Json (Arr (take LIM_hist (newEntry u f p t d # []))))
         \<and> writable (snd (saveToHistory u f p t d s))"
        by (simp add: saveToHistory_def getHistory_def prim_defs Let_def LIM_hist_def)
      then show ?thesis by blast
    next
      case (Json v)
      show ?thesis
      proof (cases v)
        case (Obj pl ts)
        with None Some Json assms have "cache (snd (saveToHistory u f p t d s)) ''conversionHistory''
           = Some (Arr (take LIM_hist (newEntry u f p t d # [])))
         \<and> durable (snd (saveToHistory u f p t d s)) ''conversionHistory''
           = Some (Json (Arr (take LIM_hist (newEntry u f p t d # []))))
         \<and> writable (snd (saveToHistory u f p t d s))"
          by (simp add: saveToHistory_def getHistory_def prim_defs Let_def LIM_hist_def)
        then show ?thesis by blast
      next
        case (Arr h)
        with None Some Json assms have "cache (snd (saveToHistory u f p t d s)) ''conversionHistory''
           = Some (Arr (take LIM_hist (newEntry u f p t d # filter (fresh TTL t) h)))
         \<and> durable (snd (saveToHistory u f p t d s)) ''conversionHistory''
           = Some (Json (Arr (take LIM_hist (newEntry u f p t d # filter (fresh TTL t) h))))
         \<and> writable (snd (saveToHistory u f p t d s))"
          by (auto simp: saveToHistory_def getHistory_def filter_valid_def prim_defs Let_def
             filter_same_length)
        then show ?thesis by blast
      qed
    qed
  qed
next
  case (Some v)
  show ?thesis
  proof (cases v)
    case (Obj pl ts)
    with Some assms have "cache (snd (saveToHistory u f p t d s)) ''conversionHistory''
           = Some (Arr (take LIM_hist (newEntry u f p t d # [])))
         \<and> durable (snd (saveToHistory u f p t d s)) ''conversionHistory''
           = Some (Json (Arr (take LIM_hist (newEntry u f p t d # []))))
         \<and> writable (snd (saveToHistory u f p t d s))"
      by (simp add: saveToHistory_def getHistory_def prim_defs Let_def LIM_hist_def)
    then show ?thesis by blast
  next
    case (Arr h)
    with Some push_cached [OF assms, of h u f p t d] show ?thesis by blast
  qed
qed

lemma push_all_inv:
  "writable s \<Longrightarrow> cache s ''conversionHistory'' = Some (Arr h) \<Longrightarrow>
   durable s ''conversionHistory'' = Some (Json (Arr h)) \<Longrightarrow>
   h = take LIM_hist (rev es @ rest) \<Longrightarrow>
   \<forall>x \<in> set es. \<forall>q \<in> set ps. pushed_at q - timestamp x < TTL \<Longrightarrow>
   \<forall>p \<in> set ps. \<forall>q \<in> set ps. pushed_at q - pushed_at p < TTL \<Longrightarrow>
   \<exists>h' rest'. cache (push_all ps s) ''conversionHistory'' = Some (Arr h')
     \<and> durable (push_all ps s) ''conversionHistory'' = Some (Json (Arr h'))
     \<and> h' = take LIM_hist (rev (es @ map entry_of ps) @ rest')"
proof (induction ps arbitrary: s h es rest)
  case Nil
  then show ?case by auto
next
  case (Cons p ps)
  obtain u f pp t d where p: "p = (u, f, pp, t, d)" by (cases p)
  let ?e = "newEntry u f pp t d"
  let ?s1 = "snd (saveToHistory u f pp t d s)"
  let ?h1 = "take LIM_hist (?e # filter (fresh TTL t) h)"
  from push_cached [OF Cons.prems(1,2), of u f pp t d]
  have s1: "cache ?s1 ''conversionHistory'' = Some (Arr ?h1)"
    "durable ?s1 ''conversionHistory'' = Some (Json (Arr ?h1))" "writable ?s1" by simp_all
  from Cons.prems(5) p have "\<forall>x \<in> set es. fresh TTL t x" by (simp add: fresh_def)
  from hist_step [OF Cons.prems(4) this, of ?e]
  obtain rest1 where h1: "?h1 = take LIM_hist (rev (es @ [?e]) @ rest1)" by blast
  have a: "\<forall>x \<in> set (es @ [?e]). \<forall>q \<in> set ps. pushed_at q - timestamp x < TTL"
    using Cons.prems(5,6) p by (auto simp: newEntry_def)
  have b: "\<forall>p \<in> set ps. \<forall>q \<in> set ps. pushed_at q - pushed_at p < TTL"
    using Cons.prems(6) by simp
  from Cons.IH [OF s1(3) s1(1) s1(2) h1 a b] p show ?case by simp
qed


lemma butlast_is_take:
  "length ys \<le> Suc M \<Longrightarrow> (if length ys > M then butlast ys else ys) = take M ys"
proof (cases "length ys > M")
  case True
  assume "length ys \<le> Suc M"
  with True have "length ys - 1 = M" by simp
  with True show ?thesis by (simp add: butlast_conv_take)
next
  case False
  then show ?thesis by simp
qed

lemma pop_is_take:
  "length h \<le> MAX_HISTORY_ITEMS_v1 \<Longrightarrow>
   (if length (e # filter P h) > MAX_HISTORY_ITEMS_v1 then butlast (e # filter P h) else e # filter P h)
     = take MAX_HISTORY_ITEMS_v1 (e # filter P h)"
proof -
  assume a: "length h \<le> MAX_HISTORY_ITEMS_v1"
  have "length (filter P h) \<le> length h" by (rule length_filter_le)
  from this a have "length (filter P h) \<le> MAX_HISTORY_ITEMS_v1" by (rule order_trans)
  then have "length (e # filter P h) \<le> Suc MAX_HISTORY_ITEMS_v1" by simp
  then show ?thesis by (rule butlast_is_take)
qed

lemma stored_history_nonempty:
  "stored_history s = h \<Longrightarrow> h \<noteq> [] \<Longrightarrow> durable s ''conversionHistory'' = Some (Json (Arr h))"
  by (auto simp: stored_history_def split: option.splits raw.splits stored.splits)

lemma push_v1:
  assumes w: "writable s" and l: "length (stored_history s) \<le> MAX_HISTORY_ITEMS_v1"
  shows "stored_history (snd (saveToHistory_v1 u f p t d s))
           = take MAX_HISTORY_ITEMS_v1
               (newEntry u f p t d # filter (fresh STORAGE_TTL t) (stored_history s))
         \<and> writable (snd (saveToHistory_v1 u f p t d s))"
proof (cases "\<exists>h. durable s ''conversionHistory'' = Some (Json (Arr h))")
  case True
  then obtain h where h: "durable s ''conversionHistory'' = Some (Json (Arr h))" by blast
  then have sh: "stored_history s = h" by (simp add: stored_history_def)
  from pop_is_take [OF l [unfolded sh], of "newEntry u f p t d" "fresh STORAGE_TTL t"] w h sh
  show ?thesis
    by (auto simp: saveToHistory_v1_def getHistory_v1_def prim_defs Let_def stored_history_def
          filter_same_length)
next
  case False
  then have sh: "stored_history s = []"
    by (auto simp: stored_history_def split: option.splits raw.splits stored.splits)
  from False w show ?thesis unfolding sh
    by (auto simp: saveToHistory_v1_def getHistory_v1_def prim_defs Let_def stored_history_def
          MAX_HISTORY_ITEMS_v1_def split: option.splits raw.splits stored.splits)
qed

lemma push_all_v1_inv:
  "writable s \<Longrightarrow> length (stored_history s) \<le> MAX_HISTORY_ITEMS_v1 \<Longrightarrow>
   stored_history s = take MAX_HISTORY_ITEMS_v1 (rev es @ rest) \<Longrightarrow>
   \<forall>x \<in> set es. \<forall>q \<in> set ps. pushed_at q - timestamp x < STORAGE_TTL \<Longrightarrow>
   \<forall>p \<in> set ps. \<forall>q \<in> set ps. pushed_at q - pushed_at p < STORAGE_TTL \<Longrightarrow>
   \<exists>rest'. stored_history (push_all_v1 ps s)
     = take MAX_HISTORY_ITEMS_v1 (rev (es @ map entry_of ps) @ rest')"
proof (induction ps arbitrary: s es rest)
  case Nil
  then show ?case by auto
next
  case (Cons p ps)
  obtain u f pp t d where p: "p = (u, f, pp, t, d)" by (cases p)
  let ?e = "newEntry u f pp t d"
  let ?s1 = "snd (saveToHistory_v1 u f pp t d s)"
  let ?h1 = "take MAX_HISTORY_ITEMS_v1 (?e # filter (fresh STORAGE_TTL t) (stored_history s))"
  from push_v1 [OF Cons.prems(1,2), of u f pp t d]
  have s1: "stored_history ?s1 = ?h1" "writable ?s1" by simp_all
  then have l1: "length (stored_history ?s1) \<le> MAX_HISTORY_ITEMS_v1" by simp
  from Cons.prems(4) p have "\<forall>x \<in> set es. fresh STORAGE_TTL t x" by (simp add: fresh_def)
  from hist_step [OF Cons.prems(3) this, of ?e] s1(1)
  obtain rest1 where h1: "stored_history ?s1 = take MAX_HISTORY_ITEMS_v1 (rev (es @ [?e]) @ rest1)"
    by auto
  have a: "\<forall>x \<in> set (es @ [?e]). \<forall>q \<in> set ps. pushed_at q - timestamp x < STORAGE_TTL"
    using Cons.prems(4,5) p by (auto simp: newEntry_def)
  have b: "\<forall>p \<in> set ps. \<forall>q \<in> set ps. pushed_at q - pushed_at p < STORAGE_TTL"
    using Cons.prems(5) by simp
  from Cons.IH [OF s1(2) l1 h1 a b] p show ?case by simp
qed

section \<open>Expiry of cache entries\<close>

text \<open>
  Claim C2.  Take a key under which the cache holds an entry with timestamp \<open>ts\<close>: in
  the mirror, or, with nothing in the mirror, in the durable store.  A read at time
  \<open>t\<close> with \<open>t - ts\<close> above 24 hours returns absent and leaves neither a mirror entry
  nor a durable item under the key; a read with \<open>t - ts\<close> at most 24 hours returns the
  stored value.  The same holds for \<^verbatim>\<open>getFromStorage\<close> of the unmirrored revision, called
  with the key's own clear function, on the durable store.
\<close>

theorem ttl_expiry:
  "((cache s k = Some (Obj p ts) \<or> (cache s k = None \<and> durable s k = Some (Json (Obj p ts)))) \<longrightarrow>
      (if t - ts > 24 * 60 * 60 * 1000
       then fst (cache_get k c t s) = Inr None
            \<and> cache (snd (cache_get k c t s)) k = None
            \<and> durable (snd (cache_get k c t s)) k = None
       else fst (cache_get k c t s) = Inr (Some (Obj p ts))))
   \<and> (durable s k = Some (Json (Obj p ts)) \<longrightarrow>
      (if t - ts > 24 * 60 * 60 * 1000
       then fst (getFromStorage k (clearFromStorage k) t s) = Inr None
            \<and> durable (snd (getFromStorage k (clearFromStorage k) t s)) k = None
       else fst (getFromStorage k (clearFromStorage k) t s) = Inr (Some (Obj p ts))))"
  by (auto simp: cache_get_def check_ttl_def cache_clear_def getFromStorage_def clearFromStorage_def
       getFromStorage_catch_def TTL_def STORAGE_TTL_def prim_defs split: option.splits)

theorem ttl_expiry_witness:
  "cache s_old ''completedResult'' = None
   \<and> durable s_old ''completedResult'' = Some (Json (Obj (ResultRec ''/out/j1.avif'' None ''avif'') 0))
   \<and> fst (getCompletedResult (25 * 60 * 60 * 1000) s_old) = Inr None
   \<and> durable (snd (getCompletedResult (25 * 60 * 60 * 1000) s_old)) ''completedResult'' = None
   \<and> fst (getCompletedResult (24 * 60 * 60 * 1000) s_old)
       = Inr (Some (Obj (ResultRec ''/out/j1.avif'' None ''avif'') 0))
   \<and> fst (getCompletedResult_v1 (25 * 60 * 60 * 1000) s_old) = Inr None"
  using ttl_expiry [of s_old "''completedResult''" "ResultRec ''/out/j1.avif'' None ''avif''" 0
                       "25 * 60 * 60 * 1000" True]
        ttl_expiry [of s_old "''completedResult''" "ResultRec ''/out/j1.avif'' None ''avif''" 0
                       "24 * 60 * 60 * 1000" True]
  by (simp add: s_old_def getCompletedResult_def getCompletedResult_v1_unfold)

section \<open>Saving never throws; the mirror serves reads after a failed write\<close>




section \<open>Completed result and active job\<close>

text \<open>
  Claim C1, as the code has it.  Right after \<^verbatim>\<open>saveCompletedResult\<close>, \<^verbatim>\<open>getActiveJob\<close>
  returns absent, at any time of reading.  \<^verbatim>\<open>saveActiveJob\<close> leaves the completed result
  as it is, in the mirror and in the durable store, and \<^verbatim>\<open>getCompletedResult\<close> returns
  after it what it returned before.  \<^verbatim>\<open>startConversion\<close> begins by clearing the completed
  result: right after it, and still after the \<^verbatim>\<open>saveActiveJob\<close> of its
  \<^verbatim>\<open>xhr.onload\<close> when nothing else ran in between, \<^verbatim>\<open>getCompletedResult\<close> returns
  absent.  And right after a completion (\<^verbatim>\<open>_complete\<close>), \<^verbatim>\<open>getActiveJob\<close> returns absent.
\<close>

theorem mutual_exclusion:
  "fst (getActiveJob t' (snd (saveCompletedResult u p f t s))) = Inr None
   \<and> cache (snd (saveActiveJob j f t s)) ''completedResult'' = cache s ''completedResult''
   \<and> durable (snd (saveActiveJob j f t s)) ''completedResult'' = durable s ''completedResult''
   \<and> fst (getCompletedResult t' (snd (saveActiveJob j f t s))) = fst (getCompletedResult t' s)
   \<and> fst (getCompletedResult t' (snd (startConversion s))) = Inr None
   \<and> fst (getCompletedResult t' (snd (xhr_onload j f t (snd (startConversion s))))) = Inr None
   \<and> fst (getActiveJob t' (snd (complete e data fmt t s))) = Inr None"
proof -
  have a: "fst (getActiveJob t' (snd (saveCompletedResult u p f t s))) = Inr None" for u p f t s
    by (simp add: saveCompletedResult_eq clearActiveJob_then_get)
  have b: "cache (snd (saveActiveJob j f t s)) ''completedResult'' = cache s ''completedResult''
           \<and> durable (snd (saveActiveJob j f t s)) ''completedResult'' = durable s ''completedResult''"
    for s
    by (simp add: saveActiveJob_def cache_save_def prim_defs Let_def)
  have c: "fst (getCompletedResult t' (snd (saveActiveJob j f t s))) = fst (getCompletedResult t' s)"
    for s
    unfolding getCompletedResult_def
    by (rule cache_get_same_slot) (simp_all add: b)
  have d: "fst (getCompletedResult t' (snd (startConversion s))) = Inr None"
    by (simp add: startConversion_def clearCompletedResult_def getCompletedResult_def
          clear_then_get_none)
  have e: "fst (getCompletedResult t' (snd (xhr_onload j f t (snd (startConversion s))))) = Inr None"
    by (simp add: xhr_onload_def c d)
  have f: "fst (getActiveJob t' (snd (complete e data fmt t s))) = Inr None"
    by (simp add: complete_def Let_def and_then_snd and_then_ok clearActiveJob_def cache_clear_ok
          saveCompletedResult_eq getActiveJob_after_history)
       (simp add: clearActiveJob_then_get [unfolded clearActiveJob_def])
  from a b c d e f show ?thesis by blast
qed

text \<open>
  Claim C1 ends with: a completed result and an active job are never both present in
  the store.  That fails: \<^verbatim>\<open>saveActiveJob\<close> does not look at the completed result, and
  the clear at the start of \<^verbatim>\<open>startConversion\<close> is separated from it by the whole
  upload.  In the sequence \<open>overlap\<close> every event is enabled when it happens, and at the
  end both getters return a value while the loop for \<^verbatim>\<open>j2\<close> is running.
\<close>

theorem both_present_counterexample:
  "map_option (\<lambda>pg. (holds_result 5000 (store pg), holds_job 5000 (store pg), loops pg))
     (handle_all e_timeouts overlap page0) = Some (True, True, [(''j2'', ''webp'')])"
  by (simp add: overlap_def page0_def s_empty_def e_timeouts_def d_done_def
        holds_result_def holds_job_def getCompletedResult_def getActiveJob_def
        startConversion_def xhr_onload_def resetForm_def complete_def and_then_def
        clearCompletedResult_def clearActiveJob_def saveActiveJob_def saveCompletedResult_def
        saveToHistory_def getHistory_def filter_valid_def newEntry_def LIM_hist_def
        cache_save_def cache_get_def check_ttl_def cache_clear_def TTL_def prim_defs
        toLowerCase_def or_else_def Let_def)

section \<open>Backoff\<close>

text \<open>
  Claim C3.  The base interval is 1500 ms, 5000 ms on a mobile device.  In every state
  \<open>st\<close> that a run of \<^verbatim>\<open>pollJobStatus\<close> reaches, the interval lies between the base
  value and 30000 ms.  When the page is visible there, the pass that follows issues a
  request: if the request fails, the interval becomes \<open>min (interval * 1.5) 30000\<close>,
  which is not below the interval before and not above 30000 ms, and the error counter
  goes up by one; if the request is answered, the interval is the base value again and
  the error counter is zero.
\<close>

theorem backoff:
  "baseInt e = (if isMobile e then 5000 else 1500)
   \<and> (let st = snd (poll_loop n e fmt (poll_init e t0 s)) in
        baseInt e \<le> interval st \<and> interval st \<le> 30000
        \<and> (pageVisible e (clock st) \<longrightarrow>
             (case fst (fetchWithTimeout e (length (sent st))) of
                RequestFailed \<Rightarrow>
                  interval (snd (poll_iter e fmt st)) = min (interval st * (3 / 2)) 30000
                  \<and> interval st \<le> interval (snd (poll_iter e fmt st))
                  \<and> interval (snd (poll_iter e fmt st)) \<le> 30000
                  \<and> errs (snd (poll_iter e fmt st)) = errs st + 1
              | Replied data \<Rightarrow>
                  interval (snd (poll_iter e fmt st)) = baseInt e
                  \<and> errs (snd (poll_iter e fmt st)) = 0)))"
proof -
  define st where "st = snd (poll_loop n e fmt (poll_init e t0 s))"
  have b: "baseInt e \<le> interval st \<and> interval st \<le> 30000"
    unfolding st_def by (rule poll_loop_interval) (simp_all add: poll_init_def baseInt_bounds)
  have c: "case fst (fetchWithTimeout e (length (sent st))) of
             RequestFailed \<Rightarrow>
               interval (snd (poll_iter e fmt st)) = min (interval st * (3 / 2)) 30000
               \<and> interval st \<le> interval (snd (poll_iter e fmt st))
               \<and> interval (snd (poll_iter e fmt st)) \<le> 30000
               \<and> errs (snd (poll_iter e fmt st)) = errs st + 1
           | Replied data \<Rightarrow>
               interval (snd (poll_iter e fmt st)) = baseInt e
               \<and> errs (snd (poll_iter e fmt st)) = 0"
    if v: "pageVisible e (clock st)"
  proof -
    obtain r d where f: "fetchWithTimeout e (length (sent st)) = (r, d)"
      by (cases "fetchWithTimeout e (length (sent st))")
    show ?thesis
    proof (cases r)
      case RequestFailed
      with v f b baseInt_bounds [of e] show ?thesis
        by (auto simp: poll_iter_failed on_catch_eq min_def)
    next
      case (Replied data)
      with v f show ?thesis
        by (auto simp: poll_iter_replied Let_def)
    qed
  qed
  show ?thesis using b c by (simp add: baseInt_def Let_def st_def [symmetric])
qed

theorem backoff_witness:
  "pageVisible e_timeouts (clock (snd (poll_loop 2 e_timeouts ''avif'' (poll_init e_timeouts 0 s_empty))))
   \<and> interval (snd (poll_loop 2 e_timeouts ''avif'' (poll_init e_timeouts 0 s_empty))) = 3375
   \<and> interval (snd (poll_iter e_timeouts ''avif''
          (snd (poll_loop 2 e_timeouts ''avif'' (poll_init e_timeouts 0 s_empty))))) = 10125 / 2"
  using backoff [of e_timeouts 2 "''avif''" 0 s_empty]
  by (simp add: run2 Let_def) (simp add: e_timeouts_def)

section \<open>Losing the connection\<close>

text \<open>
  Claim C4.  The maximum error count is 5, 3 on a mobile device.  A pass whose request
  fails ends the run in \<open>ConnectionLost\<close> exactly when this failure uses up the maximum
  (\<^verbatim>\<open>errs >= maxErrs\<close> after the increment), and goes on polling exactly when the
  counter is still below it.  Once a pass of a run has ended in \<open>ConnectionLost\<close>, its
  request is the last one: whatever number of further passes the run is allowed, its
  result is the result of that pass.  From any state of the loop with the counter below
  the maximum, on a visible page, if the requests from there on all fail, the run ends
  in \<open>ConnectionLost\<close> after exactly as many further requests as the counter was short
  of the maximum, however many passes it is allowed.  In particular a run whose
  requests all time out ends with the failure that fills the maximum: on the desktop
  profile after the fifth, with no sixth request.
\<close>

theorem connection_lost:
  "maxErrs e = (if isMobile e then 3 else 5)
   \<and> (pageVisible e (clock st) \<and> fst (fetchWithTimeout e (length (sent st))) = RequestFailed \<longrightarrow>
        (fst (poll_iter e fmt st) = ConnectionLost) = (maxErrs e \<le> errs st + 1)
        \<and> (fst (poll_iter e fmt st) = Polling) = (errs st + 1 < maxErrs e))
   \<and> (poll_loop n e fmt st0 = (Polling, st) \<and> pageVisible e (clock st)
       \<and> fst (fetchWithTimeout e (length (sent st))) = RequestFailed
       \<and> maxErrs e \<le> errs st + 1 \<longrightarrow>
        fst (poll_iter e fmt st) = ConnectionLost
        \<and> sent (snd (poll_iter e fmt st)) = clock st # sent st
        \<and> (\<forall>m. poll_loop (n + Suc m) e fmt st0 = poll_iter e fmt st))
   \<and> ((\<forall>t. pageVisible e t)
       \<and> (\<forall>k. length (sent st) \<le> k \<longrightarrow> fst (fetchWithTimeout e k) = RequestFailed)
       \<and> errs st < maxErrs e \<and> maxErrs e - errs st \<le> n \<longrightarrow>
        fst (poll_loop n e fmt st) = ConnectionLost
        \<and> length (sent (snd (poll_loop n e fmt st))) = length (sent st) + (maxErrs e - errs st)
        \<and> errs (snd (poll_loop n e fmt st)) = maxErrs e)
   \<and> ((\<forall>t. pageVisible e t) \<and> (\<forall>k. fst (fetchWithTimeout e k) = RequestFailed) \<and> maxErrs e \<le> n \<longrightarrow>
        fst (pollJobStatus n e j fmt t0 s) = ConnectionLost
        \<and> length (sent (snd (pollJobStatus n e j fmt t0 s))) = maxErrs e
        \<and> errs (snd (pollJobStatus n e j fmt t0 s)) = maxErrs e)"
proof -
  have a: "(fst (poll_iter e fmt st) = ConnectionLost) = (maxErrs e \<le> errs st + 1)
           \<and> (fst (poll_iter e fmt st) = Polling) = (errs st + 1 < maxErrs e)"
    if v: "pageVisible e (clock st)" and f: "fst (fetchWithTimeout e (length (sent st))) = RequestFailed"
  proof -
    obtain d where "fetchWithTimeout e (length (sent st)) = (RequestFailed, d)"
      using f by (cases "fetchWithTimeout e (length (sent st))") auto
    with v show ?thesis by (auto simp: poll_iter_failed on_catch_eq)
  qed
  have c: "fst (poll_iter e fmt st) = ConnectionLost
        \<and> sent (snd (poll_iter e fmt st)) = clock st # sent st
        \<and> (\<forall>m. poll_loop (n + Suc m) e fmt st0 = poll_iter e fmt st)"
    if run: "poll_loop n e fmt st0 = (Polling, st)" and v: "pageVisible e (clock st)"
      and f: "fst (fetchWithTimeout e (length (sent st))) = RequestFailed"
      and l: "maxErrs e \<le> errs st + 1"
  proof -
    from a [OF v f] l have ph: "fst (poll_iter e fmt st) = ConnectionLost" by simp
    have se: "sent (snd (poll_iter e fmt st)) = clock st # sent st"
      using v by (simp add: poll_iter_sent)
    have "poll_loop (n + Suc m) e fmt st0 = poll_iter e fmt st" for m
    proof -
      obtain st2 where it: "poll_iter e fmt st = (ConnectionLost, st2)"
        using ph by (cases "poll_iter e fmt st") auto
      then have "poll_loop (Suc m) e fmt st = poll_iter e fmt st" by simp
      moreover have "poll_loop (n + Suc m) e fmt st0 = poll_loop (Suc m) e fmt st"
        by (simp only: poll_loop_add [of n "Suc m"] run prod.case phase.case)
      ultimately show ?thesis by (simp only:)
    qed
    with ph se show ?thesis by blast
  qed
  have d: "fst (poll_loop n e fmt st) = ConnectionLost
        \<and> length (sent (snd (poll_loop n e fmt st))) = length (sent st) + (maxErrs e - errs st)
        \<and> errs (snd (poll_loop n e fmt st)) = maxErrs e"
    if "\<forall>t. pageVisible e t"
      and "\<forall>k. length (sent st) \<le> k \<longrightarrow> fst (fetchWithTimeout e k) = RequestFailed"
      and "errs st < maxErrs e" and "maxErrs e - errs st \<le> n"
    using fail_run_from [of e st n fmt] that by simp
  have b: "fst (pollJobStatus n e j fmt t0 s) = ConnectionLost
        \<and> length (sent (snd (pollJobStatus n e j fmt t0 s))) = maxErrs e
        \<and> errs (snd (pollJobStatus n e j fmt t0 s)) = maxErrs e"
    if "\<forall>t. pageVisible e t" and "\<forall>k. fst (fetchWithTimeout e k) = RequestFailed" and "maxErrs e \<le> n"
    using all_fail_run [of e "poll_init e t0 s" n fmt] that
    by (simp add: pollJobStatus_def) (simp add: poll_init_def maxErrs_def)
  have m: "maxErrs e = (if isMobile e then 3 else 5)" by (simp add: maxErrs_def)
  from m a b c d show ?thesis by blast
qed

theorem connection_lost_witness:
  "maxErrs e_timeouts = 5
   \<and> fst (pollJobStatus 6 e_timeouts ''j1'' ''avif'' 0 s_job) = ConnectionLost
   \<and> length (sent (snd (pollJobStatus 6 e_timeouts ''j1'' ''avif'' 0 s_job))) = 5
   \<and> sent (snd (pollJobStatus 6 e_timeouts ''j1'' ''avif'' 0 s_job))
       = [313125 / 4, 111375 / 2, 35625, 17250, 0]
   \<and> fst (pollJobStatus 30 e_flaky ''j1'' ''avif'' 0 s_job) = ConnectionLost
   \<and> length (sent (snd (pollJobStatus 30 e_flaky ''j1'' ''avif'' 0 s_job))) = 6"
proof -
  let ?st4 = "\<lparr>clock = 313125 / 4, interval = 30375 / 4, errs = 4, lastSt = None,
               sent = [111375 / 2, 35625, 17250, 0], disk = s_job\<rparr>"
  let ?f1 = "\<lparr>clock = 1600, interval = 1500, errs = 0, lastSt = Some ''running'',
              sent = [0], disk = s_job\<rparr>"
  have m: "maxErrs e_timeouts = 5" "maxErrs e_flaky = 5"
    by (simp_all add: maxErrs_def e_timeouts_def e_flaky_def)
  have vt: "\<forall>t. pageVisible e_timeouts t" "\<forall>k. fst (fetchWithTimeout e_timeouts k) = RequestFailed"
    by (simp_all add: e_timeouts_def)
  note T = connection_lost [of e_timeouts ?st4 "''avif''" 4 "poll_init e_timeouts 0 s_job"
                               "''j1''" 0 s_job]
  note T6 = connection_lost [of e_timeouts ?st4 "''avif''" 6 "poll_init e_timeouts 0 s_job"
                                "''j1''" 0 s_job]
  have h3: "poll_loop 4 e_timeouts ''avif'' (poll_init e_timeouts 0 s_job) = (Polling, ?st4)
      \<and> pageVisible e_timeouts (clock ?st4)
      \<and> fst (fetchWithTimeout e_timeouts (length (sent ?st4))) = RequestFailed
      \<and> maxErrs e_timeouts \<le> errs ?st4 + 1"
    using run4 vt by (simp add: m)
  from T h3 have stop: "sent (snd (poll_iter e_timeouts ''avif'' ?st4)) = clock ?st4 # sent ?st4
      \<and> (\<forall>m. poll_loop (4 + Suc m) e_timeouts ''avif'' (poll_init e_timeouts 0 s_job)
             = poll_iter e_timeouts ''avif'' ?st4)"
    by blast
  then have "poll_loop (4 + Suc 1) e_timeouts ''avif'' (poll_init e_timeouts 0 s_job)
      = poll_iter e_timeouts ''avif'' ?st4" by blast
  moreover have "(4::nat) + Suc 1 = 6" by simp
  ultimately have "poll_loop 6 e_timeouts ''avif'' (poll_init e_timeouts 0 s_job)
      = poll_iter e_timeouts ''avif'' ?st4" by (simp only:)
  with stop have s6: "sent (snd (pollJobStatus 6 e_timeouts ''j1'' ''avif'' 0 s_job))
       = [313125 / 4, 111375 / 2, 35625, 17250, 0]"
    by (simp add: pollJobStatus_def)
  from T6 vt m have b6: "fst (pollJobStatus 6 e_timeouts ''j1'' ''avif'' 0 s_job) = ConnectionLost
     \<and> length (sent (snd (pollJobStatus 6 e_timeouts ''j1'' ''avif'' 0 s_job))) = 5"
    by simp
  note F = connection_lost [of e_flaky ?f1 "''avif''" 29 "poll_init e_flaky 0 s_job"
                               "''j1''" 0 s_job]
  have hf: "(\<forall>t. pageVisible e_flaky t)
      \<and> (\<forall>k. length (sent ?f1) \<le> k \<longrightarrow> fst (fetchWithTimeout e_flaky k) = RequestFailed)
      \<and> errs ?f1 < maxErrs e_flaky \<and> maxErrs e_flaky - errs ?f1 \<le> 29"
    by (simp add: m) (simp add: e_flaky_def)
  from F hf have r29: "fst (poll_loop 29 e_flaky ''avif'' ?f1) = ConnectionLost
      \<and> length (sent (snd (poll_loop 29 e_flaky ''avif'' ?f1))) = length (sent ?f1) + (maxErrs e_flaky - errs ?f1)"
    by blast
  have "poll_loop (1 + 29) e_flaky ''avif'' (poll_init e_flaky 0 s_job)
      = poll_loop 29 e_flaky ''avif'' ?f1"
    by (simp only: poll_loop_add [of 1 29] run_flaky1 prod.case phase.case)
  moreover have "(1::nat) + 29 = 30" by simp
  ultimately have "poll_loop 30 e_flaky ''avif'' (poll_init e_flaky 0 s_job)
      = poll_loop 29 e_flaky ''avif'' ?f1" by (simp only:)
  with r29 have f30: "fst (pollJobStatus 30 e_flaky ''j1'' ''avif'' 0 s_job) = ConnectionLost
     \<and> length (sent (snd (pollJobStatus 30 e_flaky ''j1'' ''avif'' 0 s_job))) = 6"
    by (simp add: pollJobStatus_def m)
  from m b6 s6 f30 show ?thesis by blast
qed

section \<open>Terminal statuses\<close>

text \<open>
  Claim C5.  Let a run be still polling after \<open>n\<close> passes, in state \<open>st1\<close>, with the
  page visible, and let the request of the next pass be answered with status
  \<^verbatim>\<open>done\<close>, \<^verbatim>\<open>error\<close> or \<^verbatim>\<open>cancelled\<close>.  Then that pass ends the run (in \<open>Done\<close> for
  \<^verbatim>\<open>done\<close>, in \<open>Failed\<close> otherwise), this request is the last entry of the list of
  requests, and whatever number of further passes the run is allowed, its result is
  the result of that pass: no later request is issued.
\<close>

theorem terminal_stops:
  "poll_loop n e fmt st = (Polling, st1) \<and> pageVisible e (clock st1)
   \<and> fetchWithTimeout e (length (sent st1)) = (Replied data, d)
   \<and> status data \<in> {Some ''done'', Some ''error'', Some ''cancelled''} \<longrightarrow>
     fst (poll_iter e fmt st1) = (if status data = Some ''done'' then Done else Failed)
     \<and> sent (snd (poll_iter e fmt st1)) = clock st1 # sent st1
     \<and> (\<forall>m. poll_loop (n + Suc m) e fmt st = poll_iter e fmt st1)"
proof (intro impI, elim conjE)
  assume run: "poll_loop n e fmt st = (Polling, st1)"
    and v: "pageVisible e (clock st1)"
    and f: "fetchWithTimeout e (length (sent st1)) = (Replied data, d)"
    and t: "status data \<in> {Some ''done'', Some ''error'', Some ''cancelled''}"
  have ph: "fst (poll_iter e fmt st1) = (if status data = Some ''done'' then Done else Failed)"
    using v f t by (auto simp: poll_iter_replied Let_def)
  have se: "sent (snd (poll_iter e fmt st1)) = clock st1 # sent st1"
    using v f t by (auto simp: poll_iter_replied Let_def)
  have "poll_loop (n + Suc m) e fmt st = poll_iter e fmt st1" for m
  proof -
    obtain ph' st2 where it: "poll_iter e fmt st1 = (ph', st2)" by (cases "poll_iter e fmt st1")
    with ph have "ph' \<noteq> Polling" by (auto split: if_splits)
    with it have "poll_loop (Suc m) e fmt st1 = poll_iter e fmt st1" by (cases ph') simp_all
    moreover have "poll_loop (n + Suc m) e fmt st = poll_loop (Suc m) e fmt st1"
      by (simp only: poll_loop_add [of n "Suc m"] run prod.case phase.case)
    ultimately show ?thesis by (simp only:)
  qed
  with ph se
  show "fst (poll_iter e fmt st1) = (if status data = Some ''done'' then Done else Failed)
     \<and> sent (snd (poll_iter e fmt st1)) = clock st1 # sent st1
     \<and> (\<forall>m. poll_loop (n + Suc m) e fmt st = poll_iter e fmt st1)" by blast
qed

theorem terminal_stops_witness:
  "poll_loop 2 e_scenarioA ''avif'' (poll_init e_scenarioA 0 s_job)
     = (Polling, \<lparr>clock = 3200, interval = 1500, errs = 0, lastSt = Some ''running'',
                  sent = [1600, 0], disk = s_job\<rparr>)
   \<and> pageVisible e_scenarioA 3200
   \<and> fetchWithTimeout e_scenarioA 2 = (Replied d_done, 100)
   \<and> status d_done = Some ''done''
   \<and> fst (poll_loop 10 e_scenarioA ''avif'' (poll_init e_scenarioA 0 s_job)) = Done
   \<and> sent (snd (poll_loop 10 e_scenarioA ''avif'' (poll_init e_scenarioA 0 s_job))) = [3200, 1600, 0]"
proof -
  let ?st1 = "\<lparr>clock = 3200, interval = 1500, errs = 0, lastSt = Some ''running'',
               sent = [1600, 0], disk = s_job\<rparr>"
  let ?st0 = "poll_init e_scenarioA 0 s_job"
  have h: "pageVisible e_scenarioA 3200 \<and> fetchWithTimeout e_scenarioA 2 = (Replied d_done, 100)
           \<and> status d_done = Some ''done''"
    by (simp add: e_scenarioA_def d_done_def)
  have hyp: "poll_loop 2 e_scenarioA ''avif'' ?st0 = (Polling, ?st1)
     \<and> pageVisible e_scenarioA (clock ?st1)
     \<and> fetchWithTimeout e_scenarioA (length (sent ?st1)) = (Replied d_done, 100)
     \<and> status d_done \<in> {Some ''done'', Some ''error'', Some ''cancelled''}"
    using runA2 by (simp add: e_scenarioA_def d_done_def)
  note r = terminal_stops [of 2 e_scenarioA "''avif''" ?st0 ?st1 d_done 100, THEN mp, OF hyp]
  have two: "(2::nat) + Suc 7 = 10" by simp
  from r have "poll_loop (2 + Suc 7) e_scenarioA ''avif'' ?st0 = poll_iter e_scenarioA ''avif'' ?st1"
    by blast
  then have run: "poll_loop 10 e_scenarioA ''avif'' ?st0 = poll_iter e_scenarioA ''avif'' ?st1"
    by (simp only: two)
  from r have "fst (poll_iter e_scenarioA ''avif'' ?st1) = Done
     \<and> sent (snd (poll_iter e_scenarioA ''avif'' ?st1)) = [3200, 1600, 0]"
    by (simp add: d_done_def)
  with run runA2 h show ?thesis by (simp only:) 
qed

section \<open>The active job after the connection is lost\<close>

text \<open>
  Claim C10.  When a run of the polling loop ends in \<open>ConnectionLost\<close>, the storage it
  leaves holds no active job: \<^verbatim>\<open>getActiveJob\<close> returns absent, at any time of reading.
\<close>

theorem connection_lost_clears_job:
  "fst (poll_loop n e fmt st) = ConnectionLost \<longrightarrow>
   fst (getActiveJob t (disk (snd (poll_loop n e fmt st)))) = Inr None"
proof (induction n arbitrary: st)
  case 0
  show ?case by simp
next
  case (Suc n)
  obtain ph st1 where it: "poll_iter e fmt st = (ph, st1)" by (cases "poll_iter e fmt st")
  show ?case
  proof (cases ph)
    case Polling
    with it Suc.IH [of st1] show ?thesis by simp
  next
    case ConnectionLost
    with it poll_iter_lost_cleared [of e fmt st t] show ?thesis by simp
  qed (use it in simp_all)
qed

theorem connection_lost_clears_job_witness:
  "fst (getActiveJob 1000 s_job) = Inr (Some (Obj (JobRec ''j1'' ''avif'') 0))
   \<and> fst (poll_loop 6 e_timeouts ''avif'' (poll_init e_timeouts 0 s_job)) = ConnectionLost
   \<and> fst (getActiveJob 1000 (disk (snd (poll_loop 6 e_timeouts ''avif'' (poll_init e_timeouts 0 s_job)))))
       = Inr None"
proof -
  have a: "fst (getActiveJob 1000 s_job) = Inr (Some (Obj (JobRec ''j1'' ''avif'') 0))"
    by (simp add: example_defs storage_defs Let_def)
  have b: "fst (poll_loop 6 e_timeouts ''avif'' (poll_init e_timeouts 0 s_job)) = ConnectionLost"
    using all_fail_run [of e_timeouts "poll_init e_timeouts 0 s_job" 6 "''avif''"]
    by (simp add: poll_init_def maxErrs_def e_timeouts_def)
  from a b connection_lost_clears_job [of 6 e_timeouts "''avif''" "poll_init e_timeouts 0 s_job" 1000]
  show ?thesis by simp
qed

section \<open>A hidden page\<close>




section \<open>The resumption coordinator\<close>

text \<open>
  Claim C8.  \<^verbatim>\<open>checkAndResumeJob\<close> does the following and nothing else.  If
  \<^verbatim>\<open>getCompletedResult\<close> returns a result, the result is displayed: no status request,
  no polling.  If it returns absent and \<^verbatim>\<open>getActiveJob\<close> returns absent too, nothing is
  done.  If \<^verbatim>\<open>getActiveJob\<close> returns a job, exactly one status request is issued for it;
  when the request fails, or is answered with \<^verbatim>\<open>done\<close>, \<^verbatim>\<open>error\<close> or \<^verbatim>\<open>cancelled\<close>
  (or with no status at all), the active job is cleared and \<^verbatim>\<open>pollJobStatus\<close> is not
  called; when it is answered with any other status, \<^verbatim>\<open>pollJobStatus\<close> is called for
  the job and the storage is left as the two reads left it.  A call of
  \<^verbatim>\<open>pollJobStatus\<close> starts at the base interval with an error counter of zero.
\<close>

theorem resume_algorithm:
  "(fst (getCompletedResult now s) = Inr (Some saved) \<longrightarrow>
      checkAndResumeJob r now s = (Inr [Display saved], snd (getCompletedResult now s)))
   \<and> (fst (getCompletedResult now s) = Inr None
        \<and> fst (getActiveJob now (snd (getCompletedResult now s))) = Inr None \<longrightarrow>
      fst (checkAndResumeJob r now s) = Inr [])
   \<and> (fst (getCompletedResult now s) = Inr None
        \<and> fst (getActiveJob now (snd (getCompletedResult now s))) = Inr (Some job) \<longrightarrow>
      (case r of
         RequestFailed \<Rightarrow>
           fst (checkAndResumeJob r now s) = Inr [StatusRequest (jobId_of job)]
           \<and> fst (getActiveJob t (snd (checkAndResumeJob r now s))) = Inr None
       | Replied data \<Rightarrow>
           if status data \<in> {Some ''done'', Some ''error'', Some ''cancelled''} then
             fst (checkAndResumeJob r now s) = Inr [StatusRequest (jobId_of job)]
             \<and> fst (getActiveJob t (snd (checkAndResumeJob r now s))) = Inr None
           else if truthy (status data) then
             checkAndResumeJob r now s =
               (Inr [StatusRequest (jobId_of job), CallPoll (jobId_of job) (format_of job)],
                snd (getActiveJob now (snd (getCompletedResult now s))))
           else
             fst (checkAndResumeJob r now s) = Inr [StatusRequest (jobId_of job)]
             \<and> fst (getActiveJob t (snd (checkAndResumeJob r now s))) = Inr None))
   \<and> interval (poll_init e t0 s) = baseInt e \<and> errs (poll_init e t0 s) = 0"
proof -
  obtain c s1 where g1: "getCompletedResult now s = (c, s1)" by (cases "getCompletedResult now s")
  obtain a s2 where g2: "getActiveJob now s1 = (a, s2)" by (cases "getActiveJob now s1")
  have A: "checkAndResumeJob r now s = (Inr [Display saved], s1)" if "c = Inr (Some saved)"
    using that g1 by (simp add: checkAndResumeJob_def)
  have B: "fst (checkAndResumeJob r now s) = Inr []" if "c = Inr None" and "a = Inr None"
    using that g1 g2 by (simp add: checkAndResumeJob_def)
  have C: "(case r of
         RequestFailed \<Rightarrow>
           fst (checkAndResumeJob r now s) = Inr [StatusRequest (jobId_of job)]
           \<and> fst (getActiveJob t (snd (checkAndResumeJob r now s))) = Inr None
       | Replied data \<Rightarrow>
           if status data \<in> {Some ''done'', Some ''error'', Some ''cancelled''} then
             fst (checkAndResumeJob r now s) = Inr [StatusRequest (jobId_of job)]
             \<and> fst (getActiveJob t (snd (checkAndResumeJob r now s))) = Inr None
           else if truthy (status data) then
             checkAndResumeJob r now s =
               (Inr [StatusRequest (jobId_of job), CallPoll (jobId_of job) (format_of job)], s2)
           else
             fst (checkAndResumeJob r now s) = Inr [StatusRequest (jobId_of job)]
             \<and> fst (getActiveJob t (snd (checkAndResumeJob r now s))) = Inr None)"
    if c: "c = Inr None" and a: "a = Inr (Some job)"
  proof (cases r)
    case RequestFailed
    with c a g1 g2 show ?thesis
      by (simp add: checkAndResumeJob_def resume_catch_eq clearActiveJob_then_get)
  next
    case (Replied data)
    show ?thesis
    proof (cases "resumable (status data)")
      case True
      then have "status data \<notin> {Some ''done'', Some ''error'', Some ''cancelled''}" "truthy (status data)"
        by (auto simp: resumable_def terminal_def truthy_def split: option.splits)
      with True Replied c a g1 g2 show ?thesis
        by (simp add: checkAndResumeJob_def)
    next
      case False
      then have n: "status data \<in> {Some ''done'', Some ''error'', Some ''cancelled''} \<or> \<not> truthy (status data)"
        by (auto simp: resumable_def terminal_def truthy_def split: option.splits)
      have "checkAndResumeJob r now s = (Inr [StatusRequest (jobId_of job)], snd (clearActiveJob s2))"
        using False Replied c a g1 g2
        by (simp add: checkAndResumeJob_def Let_def clearActiveJob_def cache_clear_def)
      with n Replied show ?thesis by (auto simp: clearActiveJob_then_get)
    qed
  qed
  show ?thesis
  proof (intro conjI impI)
    assume "fst (getCompletedResult now s) = Inr (Some saved)"
    with g1 have "c = Inr (Some saved)" by simp
    from A [OF this] g1
    show "checkAndResumeJob r now s = (Inr [Display saved], snd (getCompletedResult now s))"
      by simp
  next
    assume "fst (getCompletedResult now s) = Inr None
        \<and> fst (getActiveJob now (snd (getCompletedResult now s))) = Inr None"
    with g1 g2 have "c = Inr None" "a = Inr None" by simp_all
    from B [OF this] show "fst (checkAndResumeJob r now s) = Inr []" .
  next
    assume "fst (getCompletedResult now s) = Inr None
        \<and> fst (getActiveJob now (snd (getCompletedResult now s))) = Inr (Some job)"
    with g1 g2 have "c = Inr None" "a = Inr (Some job)" by simp_all
    from C [OF this]
    show "case r of
         RequestFailed \<Rightarrow>
           fst (checkAndResumeJob r now s) = Inr [StatusRequest (jobId_of job)]
           \<and> fst (getActiveJob t (snd (checkAndResumeJob r now s))) = Inr None
       | Replied data \<Rightarrow>
           if status data \<in> {Some ''done'', Some ''error'', Some ''cancelled''} then
             fst (checkAndResumeJob r now s) = Inr [StatusRequest (jobId_of job)]
             \<and> fst (getActiveJob t (snd (checkAndResumeJob r now s))) = Inr None
           else if truthy (status data) then
             checkAndResumeJob r now s =
               (Inr [StatusRequest (jobId_of job), CallPoll (jobId_of job) (format_of job)],
                snd (getActiveJob now (snd (getCompletedResult now s))))
           else
             fst (checkAndResumeJob r now s) = Inr [StatusRequest (jobId_of job)]
             \<and> fst (getActiveJob t (snd (checkAndResumeJob r now s))) = Inr None"
      by (simp only: g1 g2 snd_conv)
  next
    show "interval (poll_init e t0 s) = baseInt e" by (simp add: poll_init_def)
  next
    show "errs (poll_init e t0 s) = 0" by (simp add: poll_init_def)
  qed
qed

theorem resume_algorithm_witness:
  "fst (getCompletedResult 1000 s_job) = Inr None
   \<and> fst (getActiveJob 1000 (snd (getCompletedResult 1000 s_job)))
       = Inr (Some (Obj (JobRec ''j1'' ''avif'') 0))
   \<and> fst (checkAndResumeJob (Replied d_done) 1000 s_job) = Inr [StatusRequest (Some ''j1'')]
   \<and> fst (getActiveJob 2000 (snd (checkAndResumeJob (Replied d_done) 1000 s_job))) = Inr None
   \<and> fst (checkAndResumeJob (Replied d_running) 1000 s_job)
       = Inr [StatusRequest (Some ''j1''), CallPoll (Some ''j1'') (Some ''avif'')]
   \<and> fst (checkAndResumeJob RequestFailed 1000 s_job) = Inr [StatusRequest (Some ''j1'')]"
proof -
  let ?job = "Obj (JobRec ''j1'' ''avif'') 0"
  have h: "fst (getCompletedResult 1000 s_job) = Inr None
     \<and> fst (getActiveJob 1000 (snd (getCompletedResult 1000 s_job))) = Inr (Some ?job)"
    by (simp add: example_defs storage_defs Let_def)
  from resume_algorithm [of 1000 s_job ?job "Replied d_done" ?job 2000 e_timeouts 0] h
  have a: "fst (checkAndResumeJob (Replied d_done) 1000 s_job) = Inr [StatusRequest (Some ''j1'')]
     \<and> fst (getActiveJob 2000 (snd (checkAndResumeJob (Replied d_done) 1000 s_job))) = Inr None"
    by (simp add: d_done_def)
  from resume_algorithm [of 1000 s_job ?job "Replied d_running" ?job 2000 e_timeouts 0] h
  have b: "fst (checkAndResumeJob (Replied d_running) 1000 s_job)
       = Inr [StatusRequest (Some ''j1''), CallPoll (Some ''j1'') (Some ''avif'')]"
    by (simp add: d_running_def truthy_def)
  from resume_algorithm [of 1000 s_job ?job RequestFailed ?job 2000 e_timeouts 0] h
  have c: "fst (checkAndResumeJob RequestFailed 1000 s_job) = Inr [StatusRequest (Some ''j1'')]"
    by simp
  from h a b c show ?thesis by simp
qed

section \<open>The bound on the history\<close>

text \<open>
  Claim C7, as the code has it.  The capacity is 3 in the mirrored revision and 5 in
  the unmirrored one.  Let the durable writes succeed and let any two of the calls be
  less than 24 hours apart.  In the mirrored revision, starting from any state, at
  least 3 calls of \<^verbatim>\<open>saveToHistory\<close> leave exactly the last 3 entries pushed, the most
  recent first, in the mirror and in the durable store.  In the unmirrored revision,
  starting from a stored history of at most 5 entries, at least 5 calls leave exactly
  the last 5 entries pushed, the most recent first.
\<close>

theorem history_bound:
  "MAX_HISTORY_ITEMS = 3 \<and> MAX_HISTORY_ITEMS_v1 = 5
   \<and> (writable s \<and> MAX_HISTORY_ITEMS \<le> length ps
       \<and> (\<forall>p \<in> set ps. \<forall>q \<in> set ps. pushed_at q - pushed_at p < 24 * 60 * 60 * 1000) \<longrightarrow>
        cache (push_all ps s) ''conversionHistory''
          = Some (Arr (take MAX_HISTORY_ITEMS (rev (map entry_of ps))))
        \<and> durable (push_all ps s) ''conversionHistory''
          = Some (Json (Arr (take MAX_HISTORY_ITEMS (rev (map entry_of ps)))))
        \<and> length (take MAX_HISTORY_ITEMS (rev (map entry_of ps))) = MAX_HISTORY_ITEMS)
   \<and> (writable s \<and> length (stored_history s) \<le> MAX_HISTORY_ITEMS_v1
       \<and> MAX_HISTORY_ITEMS_v1 \<le> length ps
       \<and> (\<forall>p \<in> set ps. \<forall>q \<in> set ps. pushed_at q - pushed_at p < 24 * 60 * 60 * 1000) \<longrightarrow>
        durable (push_all_v1 ps s) ''conversionHistory''
          = Some (Json (Arr (take MAX_HISTORY_ITEMS_v1 (rev (map entry_of ps)))))
        \<and> length (take MAX_HISTORY_ITEMS_v1 (rev (map entry_of ps))) = MAX_HISTORY_ITEMS_v1)"
proof (intro conjI impI)
  show "MAX_HISTORY_ITEMS = 3" by (simp add: MAX_HISTORY_ITEMS_def LIM_hist_def)
  show "MAX_HISTORY_ITEMS_v1 = 5" by (simp add: MAX_HISTORY_ITEMS_v1_def)
next
  assume a: "writable s \<and> MAX_HISTORY_ITEMS \<le> length ps
       \<and> (\<forall>p \<in> set ps. \<forall>q \<in> set ps. pushed_at q - pushed_at p < 24 * 60 * 60 * 1000)"
  then have len: "LIM_hist \<le> length ps" by (simp add: MAX_HISTORY_ITEMS_def)
  then obtain p ps' where ps: "ps = p # ps'" by (cases ps) (auto simp: LIM_hist_def)
  obtain u f pp t d where p: "p = (u, f, pp, t, d)" by (cases p)
  let ?e = "newEntry u f pp t d"
  let ?s1 = "snd (saveToHistory u f pp t d s)"
  from a have w: "writable s" by simp
  from push_any [OF w, of u f pp t d]
  obtain h0 where s1: "cache ?s1 ''conversionHistory'' = Some (Arr (take LIM_hist (?e # h0)))"
    "durable ?s1 ''conversionHistory'' = Some (Json (Arr (take LIM_hist (?e # h0))))"
    "writable ?s1" by blast
  have h: "take LIM_hist (?e # h0) = take LIM_hist (rev [?e] @ h0)" by simp
  have f1: "\<forall>x \<in> set [?e]. \<forall>q \<in> set ps'. pushed_at q - timestamp x < TTL"
    using a ps p by (auto simp: newEntry_def TTL_def)
  have f2: "\<forall>p \<in> set ps'. \<forall>q \<in> set ps'. pushed_at q - pushed_at p < TTL"
    using a ps by (auto simp: TTL_def)
  from push_all_inv [OF s1(3) s1(1) s1(2) h f1 f2]
  obtain h' rest' where r: "cache (push_all ps' ?s1) ''conversionHistory'' = Some (Arr h')"
    "durable (push_all ps' ?s1) ''conversionHistory'' = Some (Json (Arr h'))"
    "h' = take LIM_hist (rev ([?e] @ map entry_of ps') @ rest')" by blast
  have e: "[?e] @ map entry_of ps' = map entry_of ps" using ps p by simp
  from r(3) have "h' = take LIM_hist (rev (map entry_of ps) @ rest')" by (simp only: e)
  from hist_full [OF this] len have "h' = take LIM_hist (rev (map entry_of ps))" by simp
  with r(1,2) ps p len
  show "cache (push_all ps s) ''conversionHistory''
          = Some (Arr (take MAX_HISTORY_ITEMS (rev (map entry_of ps))))"
    and "durable (push_all ps s) ''conversionHistory''
          = Some (Json (Arr (take MAX_HISTORY_ITEMS (rev (map entry_of ps)))))"
    and "length (take MAX_HISTORY_ITEMS (rev (map entry_of ps))) = MAX_HISTORY_ITEMS"
    by (simp_all add: MAX_HISTORY_ITEMS_def)
next
  assume a: "writable s \<and> length (stored_history s) \<le> MAX_HISTORY_ITEMS_v1
       \<and> MAX_HISTORY_ITEMS_v1 \<le> length ps
       \<and> (\<forall>p \<in> set ps. \<forall>q \<in> set ps. pushed_at q - pushed_at p < 24 * 60 * 60 * 1000)"
  then have h: "stored_history s = take MAX_HISTORY_ITEMS_v1 (rev [] @ stored_history s)" by simp
  have f1: "\<forall>x \<in> set []. \<forall>q \<in> set ps. pushed_at q - timestamp x < STORAGE_TTL" by simp
  have f2: "\<forall>p \<in> set ps. \<forall>q \<in> set ps. pushed_at q - pushed_at p < STORAGE_TTL"
    using a by (simp add: STORAGE_TTL_def)
  from a have w: "writable s" and l: "length (stored_history s) \<le> MAX_HISTORY_ITEMS_v1"
    and len: "MAX_HISTORY_ITEMS_v1 \<le> length ps" by simp_all
  from push_all_v1_inv [OF w l h f1 f2]
  obtain rest' where "stored_history (push_all_v1 ps s)
     = take MAX_HISTORY_ITEMS_v1 (rev ([] @ map entry_of ps) @ rest')" by blast
  then have "stored_history (push_all_v1 ps s)
     = take MAX_HISTORY_ITEMS_v1 (rev (map entry_of ps) @ rest')" by (simp only: append_Nil)
  from hist_full [OF this] len have sh: "stored_history (push_all_v1 ps s)
     = take MAX_HISTORY_ITEMS_v1 (rev (map entry_of ps))" by simp
  from len have ne: "take MAX_HISTORY_ITEMS_v1 (rev (map entry_of ps)) \<noteq> []"
    by (auto simp: MAX_HISTORY_ITEMS_v1_def)
  from stored_history_nonempty [OF sh ne] len
  show "durable (push_all_v1 ps s) ''conversionHistory''
          = Some (Json (Arr (take MAX_HISTORY_ITEMS_v1 (rev (map entry_of ps)))))"
    and "length (take MAX_HISTORY_ITEMS_v1 (rev (map entry_of ps))) = MAX_HISTORY_ITEMS_v1"
    by simp_all
qed


theorem history_bound_witness:
  "writable s_empty \<and> length (stored_history s_empty) \<le> MAX_HISTORY_ITEMS_v1
   \<and> length quick = 6
   \<and> map pushed_at quick = [0, 60000, 120000, 180000, 240000, 300000]
   \<and> cache (push_all quick s_empty) ''conversionHistory''
       = Some (Arr [newEntry ''/out/f.avif'' ''avif'' None 300000 ''12:05'',
                    newEntry ''/out/e.avif'' ''avif'' None 240000 ''12:04'',
                    newEntry ''/out/d.avif'' ''avif'' None 180000 ''12:03''])
   \<and> durable (push_all_v1 quick s_empty) ''conversionHistory''
       = Some (Json (Arr [newEntry ''/out/f.avif'' ''avif'' None 300000 ''12:05'',
                          newEntry ''/out/e.avif'' ''avif'' None 240000 ''12:04'',
                          newEntry ''/out/d.avif'' ''avif'' None 180000 ''12:03'',
                          newEntry ''/out/c.avif'' ''avif'' None 120000 ''12:02'',
                          newEntry ''/out/b.avif'' ''avif'' None 60000 ''12:01'']))"
proof -
  have h: "writable s_empty \<and> length (stored_history s_empty) \<le> MAX_HISTORY_ITEMS_v1
     \<and> length quick = 6
     \<and> (\<forall>p \<in> set quick. \<forall>q \<in> set quick. pushed_at q - pushed_at p < 24 * 60 * 60 * 1000)"
    by (simp add: s_empty_def stored_history_def quick_def)
  have m: "MAX_HISTORY_ITEMS = 3" "MAX_HISTORY_ITEMS_v1 = 5"
    by (simp_all add: MAX_HISTORY_ITEMS_def LIM_hist_def MAX_HISTORY_ITEMS_v1_def)
  have t3: "take 3 (rev (map entry_of quick))
      = [newEntry ''/out/f.avif'' ''avif'' None 300000 ''12:05'',
         newEntry ''/out/e.avif'' ''avif'' None 240000 ''12:04'',
         newEntry ''/out/d.avif'' ''avif'' None 180000 ''12:03'']"
    by (simp add: quick_def)
  have t5: "take 5 (rev (map entry_of quick))
      = [newEntry ''/out/f.avif'' ''avif'' None 300000 ''12:05'',
         newEntry ''/out/e.avif'' ''avif'' None 240000 ''12:04'',
         newEntry ''/out/d.avif'' ''avif'' None 180000 ''12:03'',
         newEntry ''/out/c.avif'' ''avif'' None 120000 ''12:02'',
         newEntry ''/out/b.avif'' ''avif'' None 60000 ''12:01'']"
    by (simp add: quick_def)
  from history_bound [of s_empty quick] h
  have "cache (push_all quick s_empty) ''conversionHistory''
          = Some (Arr (take MAX_HISTORY_ITEMS (rev (map entry_of quick))))
        \<and> durable (push_all_v1 quick s_empty) ''conversionHistory''
          = Some (Json (Arr (take MAX_HISTORY_ITEMS_v1 (rev (map entry_of quick)))))"
    by (simp add: m)
  then have "cache (push_all quick s_empty) ''conversionHistory''
          = Some (Arr (take 3 (rev (map entry_of quick))))
        \<and> durable (push_all_v1 quick s_empty) ''conversionHistory''
          = Some (Json (Arr (take 5 (rev (map entry_of quick)))))"
    by (simp only: m)
  then have "cache (push_all quick s_empty) ''conversionHistory''
       = Some (Arr [newEntry ''/out/f.avif'' ''avif'' None 300000 ''12:05'',
                    newEntry ''/out/e.avif'' ''avif'' None 240000 ''12:04'',
                    newEntry ''/out/d.avif'' ''avif'' None 180000 ''12:03''])
   \<and> durable (push_all_v1 quick s_empty) ''conversionHistory''
       = Some (Json (Arr [newEntry ''/out/f.avif'' ''avif'' None 300000 ''12:05'',
                          newEntry ''/out/e.avif'' ''avif'' None 240000 ''12:04'',
                          newEntry ''/out/d.avif'' ''avif'' None 180000 ''12:03'',
                          newEntry ''/out/c.avif'' ''avif'' None 120000 ''12:02'',
                          newEntry ''/out/b.avif'' ''avif'' None 60000 ''12:01'']))"
    by (simp only: t3 t5)
  moreover have "map pushed_at quick = [0, 60000, 120000, 180000, 240000, 300000]"
    by (simp add: quick_def)
  ultimately show ?thesis using h by blast
qed

text \<open>
  Claim C7 as stated fails: \<^verbatim>\<open>saveToHistory\<close> reads the list through \<^verbatim>\<open>getHistory\<close>,
  which drops every entry that is 24 hours old.  Three conversions, one a day, on an
  empty store with working writes leave one entry, not three.
\<close>

theorem history_expiry_counterexample:
  "writable s_empty \<and> length daily = MAX_HISTORY_ITEMS
   \<and> cache (push_all daily s_empty) ''conversionHistory''
       = Some (Arr [newEntry ''/out/c.avif'' ''avif'' None 172800000 ''day 3''])
   \<and> durable (push_all daily s_empty) ''conversionHistory''
       = Some (Json (Arr [newEntry ''/out/c.avif'' ''avif'' None 172800000 ''day 3'']))
   \<and> fst (getHistory 172800000 (push_all daily s_empty))
       = Inr ([newEntry ''/out/c.avif'' ''avif'' None 172800000 ''day 3''], True)"
  by (simp add: daily_def s_empty_def MAX_HISTORY_ITEMS_def LIM_hist_def saveToHistory_def
        getHistory_def filter_valid_def fresh_def newEntry_def TTL_def prim_defs Let_def)

end
